theory Spec2Isabelle
  imports Main "HOL-Library.List_Lexorder" "HOL-Library.Char_ord" "HOL-Library.Sublist"
begin

section \<open>Values, errors and the syntax tree the plugin reads\<close>

text \<open>
  A thrown JavaScript error, by its message.
\<close>

datatype error = Error string

text \<open>
  The primitive payload of a node's \<open>value\<close> field. Numeric literals are never negative (a
  minus sign is a unary expression); fractional numerals are outside the model.
\<close>

datatype scalar = JString string | JBoolean bool | JNumber nat

text \<open>
  Expression nodes of the SWC tree, by what the extractor can see of them: identifiers and
  string, boolean and numeric literals carry a \<open>value\<close> field (the source itself reads
  \<open>spec.local.value\<close> of an identifier); a null literal carries none, and
  \<open>OtherExpression\<close> stands for every other kind that carries none (computed names,
  templates, calls, unary expressions, ...). Big integers and JSX text, which no attribute
  clause holds, are left out.
\<close>

datatype expression =
    Identifier string
  | StringLiteral string
  | BooleanLiteral bool
  | NumericLiteral nat
  | NullLiteral
  | OtherExpression

text \<open>\<open>'value' in n ? n.value : undefined\<close> for an expression node \<open>n\<close>.\<close>

fun node_value :: "expression \<Rightarrow> scalar option" where
  "node_value (Identifier s) = Some (JString s)"
| "node_value (StringLiteral s) = Some (JString s)"
| "node_value (BooleanLiteral b) = Some (JBoolean b)"
| "node_value (NumericLiteral n) = Some (JNumber n)"
| "node_value NullLiteral = None"
| "node_value OtherExpression = None"

text \<open>What a field of a property node holds: a child node (an object) or a primitive.\<close>

datatype field = Node expression | Primitive scalar

text \<open>
  The members of an object expression: \<open>key: value\<close> pairs; a shorthand \<open>{ a }\<close>, which is an
  identifier node (it has a \<open>value\<close> field holding the name, a string, and no \<open>key\<close>);
  getters, setters and methods (a \<open>key\<close>, no \<open>value\<close>); spread elements (neither).
\<close>

datatype property =
    KeyValueProperty expression expression
  | ShorthandProperty string
  | AccessorProperty expression
  | SpreadElement expression

text \<open>\<open>'key' in attr ? attr.key : undefined\<close> and \<open>'value' in attr ? attr.value : undefined\<close>.\<close>

fun key_field :: "property \<Rightarrow> field option" where
  "key_field (KeyValueProperty k v) = Some (Node k)"
| "key_field (ShorthandProperty s) = None"
| "key_field (AccessorProperty k) = Some (Node k)"
| "key_field (SpreadElement e) = None"

fun value_field :: "property \<Rightarrow> field option" where
  "value_field (KeyValueProperty k v) = Some (Node v)"
| "value_field (ShorthandProperty s) = Some (Primitive (JString s))"
| "value_field (AccessorProperty k) = None"
| "value_field (SpreadElement e) = None"

record object_expression =
  properties :: "property list"

datatype import_specifier =
    ImportSpecifier string
  | ImportDefaultSpecifier string
  | ImportNamespaceSpecifier string

text \<open>\<open>spec.local.value\<close>: the local name a specifier binds.\<close>

fun local_value :: "import_specifier \<Rightarrow> string" where
  "local_value (ImportSpecifier s) = s"
| "local_value (ImportDefaultSpecifier s) = s"
| "local_value (ImportNamespaceSpecifier s) = s"

text \<open>
  An import declaration: \<open>source_value\<close> is \<open>item.source.value\<close>, \<open>with_clause\<close> is the
  \<open>with\<close> field and \<open>asserts\<close> the legacy field; \<open>None\<close> is an absent (undefined or null)
  field.
\<close>

record import_declaration =
  source_value :: string
  specifiers :: "import_specifier list"
  typeOnly :: bool
  with_clause :: "object_expression option"
  asserts :: "object_expression option"

text \<open>A top-level statement: an import declaration, or anything else (by its text).\<close>

datatype module_item = ImportDeclaration import_declaration | Statement string

section \<open>importAttributes.ts\<close>

text \<open>\<open>node.with ?? node.asserts\<close>\<close>

definition getWithObject :: "import_declaration \<Rightarrow> object_expression option" where
  "getWithObject node = (case with_clause node of Some w \<Rightarrow> Some w | None \<Rightarrow> asserts node)"

text \<open>\<open>(withObj?.properties as Property[]) ?? []\<close>\<close>

definition getAttrList :: "import_declaration \<Rightarrow> property list" where
  "getAttrList node =
     (let withObj = getWithObject node
      in case withObj of None \<Rightarrow> [] | Some obj \<Rightarrow> properties obj)"

text \<open>
  \<open>k && typeof k === 'object' && 'value' in k ? k.value : undefined\<close>: only a child node
  passes the first two tests, and then its \<open>value\<close> field is read.
\<close>

definition getKey :: "property \<Rightarrow> scalar option" where
  "getKey attr =
     (let k = key_field attr
      in case k of
           Some (Node n) \<Rightarrow> node_value n
         | Some (Primitive p) \<Rightarrow> None
         | None \<Rightarrow> None)"

definition getVal :: "property \<Rightarrow> scalar option" where
  "getVal attr =
     (let v = value_field attr
      in case v of
           Some (Node n) \<Rightarrow> node_value n
         | Some (Primitive p) \<Rightarrow> None
         | None \<Rightarrow> None)"

text \<open>Decimal digits of a number, as JavaScript renders an integral number used as a key.\<close>

fun decimal :: "nat \<Rightarrow> string" where
  "decimal n =
     (if n < 10 then [char_of (48 + n)]
      else decimal (n div 10) @ [char_of (48 + n mod 10)])"

text \<open>The property key a value is converted to when it indexes an object.\<close>

fun to_property_key :: "scalar \<Rightarrow> string" where
  "to_property_key (JString s) = s"
| "to_property_key (JBoolean b) = (if b then ''true'' else ''false'')"
| "to_property_key (JNumber n) = decimal n"

type_synonym attributes = "string \<rightharpoonup> scalar"

text \<open>
  \<open>out[key] = val\<close> on an ordinary object. The key \<open>__proto__\<close> reaches the accessor
  inherited from \<open>Object.prototype\<close>, which ignores a primitive and creates no own property.
\<close>

definition assign :: "attributes \<Rightarrow> string \<Rightarrow> scalar \<Rightarrow> attributes" where
  "assign out k v = (if k = ''__proto__'' then out else out(k \<mapsto> v))"

text \<open>The loop of \<open>getImportAttributes\<close> over the attribute list, \<open>out\<close> being updated.\<close>

fun collect_attributes :: "property list \<Rightarrow> attributes \<Rightarrow> attributes" where
  "collect_attributes [] out = out"
| "collect_attributes (attr # rest) out =
     (let key = getKey attr; val = getVal attr
      in case (key, val) of
           (Some k, Some v) \<Rightarrow> collect_attributes rest (assign out (to_property_key k) v)
         | _ \<Rightarrow> collect_attributes rest out)"

definition getImportAttributes :: "import_declaration \<Rightarrow> attributes" where
  "getImportAttributes node =
     (let list = getAttrList node
      in collect_attributes list Map.empty)"

section \<open>Services of the host\<close>

text \<open>
  What the plugin reads of Vite's resolved configuration and of its configuration
  environment.
\<close>

record resolved_config =
  root :: string
  config_mode :: string

record config_env =
  command :: string
  env_mode :: string

text \<open>A message of the linter: \<open>ruleId\<close> is null for a fatal parsing message.\<close>

record lint_message =
  ruleId :: "string option"
  message :: string
  msg_line :: nat
  msg_column :: nat

text \<open>
  \<open>new TraceMap(map, mapUrl)\<close>: an index over a chunk's source map payload, with the
  address of the map file when the output directory is known.
\<close>

record trace_map =
  payload :: string
  mapUrl :: "string option"

text \<open>
  The functions the plugin calls and does not define: Node's \<open>path\<close> module, Vite's
  \<open>normalizePath\<close>, SWC's \<open>parse\<close> (the source text and the \<open>tsx\<close> flag; a syntax error
  rejects) and \<open>print\<close> (the module body and the file name; the code and its map; it is
  taken to succeed on a body that was parsed), the plugin context's \<open>this.resolve\<close> (the
  target and the importer; a rejection, or the resolved id, or null), ESLint's
  \<open>Linter.verify\<close>, and \<open>originalPositionFor(...).source\<close> of the source map library
  (null when the position maps to no source; the linter's lines and columns start at 1,
  for which it does not throw).
\<close>

record host =
  path_relative :: "string \<Rightarrow> string \<Rightarrow> string"
  path_isAbsolute :: "string \<Rightarrow> bool"
  path_join :: "string \<Rightarrow> string \<Rightarrow> string"
  normalizePath :: "string \<Rightarrow> string"
  parse :: "string \<Rightarrow> bool \<Rightarrow> error + module_item list"
  print :: "module_item list \<Rightarrow> string \<Rightarrow> string \<times> string option"
  this_resolve :: "string \<Rightarrow> string \<Rightarrow> error + string option"
  linter_verify :: "string \<Rightarrow> lint_message list"
  originalPositionFor :: "trace_map \<Rightarrow> nat \<Rightarrow> nat \<Rightarrow> string option"

definition startsWith :: "string \<Rightarrow> string \<Rightarrow> bool" where
  "startsWith p s = (take (length p) s = p)"

definition endsWith :: "string \<Rightarrow> string \<Rightarrow> bool" where
  "endsWith p s = (length p \<le> length s \<and> drop (length s - length p) s = p)"

section \<open>transform.ts\<close>

definition relativeToRoot :: "host \<Rightarrow> string \<Rightarrow> string \<Rightarrow> string" where
  "relativeToRoot h filePath rt =
     (let rel = path_relative h rt filePath
      in if startsWith ''..'' rel \<or> path_isAbsolute h rel then filePath
         else normalizePath h rel)"

record transform_context =
  resolve :: "string \<Rightarrow> string \<Rightarrow> error + string option"
  context_config :: resolved_config
  context_env :: config_env

text \<open>
  The result of an asynchronous call: it resolves with a value, it rejects with an error,
  or it never settles.
\<close>

datatype 'a awaited = Resolved 'a | Rejected error | Forever

subsection \<open>The lazy resolver\<close>

text \<open>
  A promise, by the call of the resolution service that made it (calls are numbered from
  0) and by what it settles to.
\<close>

record promise =
  made_by_call :: nat
  settles_to :: "error + string"

text \<open>
  The cache of one file's transform, and the log of the calls of the resolution service
  (target and importer).
\<close>

record resolver =
  resolveCache :: "string \<rightharpoonup> promise"
  resolve_calls :: "(string \<times> string) list"

definition new_resolver :: resolver where
  "new_resolver = \<lparr>resolveCache = Map.empty, resolve_calls = []\<rparr>"

text \<open>
  \<open>context.resolve(target, id).then(r => relativeToRoot(r?.id ?? target, context.config.root))\<close>:
  what the new promise settles to. The resolution service is asynchronous: it returns a
  promise and never throws.
\<close>

definition resolve_then :: "host \<Rightarrow> transform_context \<Rightarrow> string \<Rightarrow> string \<Rightarrow> error + string" where
  "resolve_then h context file_id target =
     (case resolve context target file_id of
        Inl e \<Rightarrow> Inl e
      | Inr r \<Rightarrow>
          Inr (relativeToRoot h (case r of Some rid \<Rightarrow> rid | None \<Rightarrow> target)
                 (root (context_config context))))"

text \<open>
  The getter \<open>resolvedTarget\<close> of the context built for \<open>target\<close>: the cached promise, or a
  new one from one more call of the resolution service, stored in the cache.
\<close>

definition resolvedTarget ::
  "host \<Rightarrow> transform_context \<Rightarrow> string \<Rightarrow> string \<Rightarrow> resolver \<Rightarrow> promise \<times> resolver" where
  "resolvedTarget h context file_id target st =
     (case resolveCache st target of
        Some promise \<Rightarrow> (promise, st)
      | None \<Rightarrow>
          (let promise = \<lparr>made_by_call = length (resolve_calls st),
                          settles_to = resolve_then h context file_id target\<rparr>
           in (promise,
               st\<lparr>resolveCache := (resolveCache st)(target \<mapsto> promise),
                  resolve_calls := resolve_calls st @ [(target, file_id)]\<rparr>)))"

subsection \<open>The predicate\<close>

text \<open>
  The fields of the context that are plain values; the getter is the operation
  \<open>ReadResolvedTarget\<close> below.
\<close>

record should_strip_context =
  target :: string
  source :: string
  withObject :: attributes
  config :: resolved_config
  env :: config_env

text \<open>
  How one invocation of the predicate ends: it throws; or it returns a boolean or a promise
  of one, which is fulfilled or rejected at a completion time, or never settles. An order
  of completion of the invocations of a file is an assignment of completion times.
\<close>

datatype outcome =
    Throws error
  | Fulfils nat bool
  | Rejects nat error
  | Pending

text \<open>
  What one invocation does: it reads (and awaits) \<open>ctx.resolvedTarget\<close> any number of
  times, each time going on from what the promise settled to, and ends.
\<close>

datatype behaviour =
    Finish outcome
  | ReadResolvedTarget "error + string \<Rightarrow> behaviour"

text \<open>
  The caller's predicate. It may keep state of its own, so its answer depends on which
  invocation of this file's transform it is (they are numbered from 0) as well as on the
  context.
\<close>

type_synonym ShouldStripFn = "nat \<Rightarrow> should_strip_context \<Rightarrow> behaviour"

primrec run_predicate ::
  "behaviour \<Rightarrow> (resolver \<Rightarrow> promise \<times> resolver) \<Rightarrow> resolver \<Rightarrow> outcome \<times> resolver" where
  "run_predicate (Finish out) getter st = (out, st)"
| "run_predicate (ReadResolvedTarget k) getter st =
     (let (p, st') = getter st in run_predicate (k (settles_to p)) getter st')"

subsection \<open>The transform of one file\<close>

text \<open>
  An element of the array \<open>body\<close>: a statement pushed as it is, or the promise made for an
  import, by the import and by how the invocation of the predicate ends.
\<close>

datatype entry = Item module_item | Decision import_declaration outcome

text \<open>
  What the loop over \<open>mod.body\<close> updates: the array, the resolver's cache, and the log of
  the invocations of the predicate (the context passed and how the invocation ends).
\<close>

record loop_state =
  body :: "entry list"
  cache :: resolver
  predicate_calls :: "(should_strip_context \<times> outcome) list"

definition new_loop :: loop_state where
  "new_loop = \<lparr>body = [], cache = new_resolver, predicate_calls = []\<rparr>"

text \<open>
  The loop. An invocation that throws ends the loop, and the transform, at once: the
  imports after it are never passed to the predicate. The reads of the getter that an
  invocation makes are run at its turn of the loop; in the program those it makes after
  an await come later, among the reads of other invocations, which changes the order of
  the calls of the resolution service and nothing else.
\<close>

fun scatter ::
  "host \<Rightarrow> string \<Rightarrow> ShouldStripFn \<Rightarrow> transform_context \<Rightarrow> string \<Rightarrow>
   module_item list \<Rightarrow> loop_state \<Rightarrow> loop_state \<times> error option" where
  "scatter h file_id shouldStrip context src [] st = (st, None)"
| "scatter h file_id shouldStrip context src (item # rest) st =
     (case item of
        Statement s \<Rightarrow>
          scatter h file_id shouldStrip context src rest (st\<lparr>body := body st @ [Item item]\<rparr>)
      | ImportDeclaration d \<Rightarrow>
          if typeOnly d
          then scatter h file_id shouldStrip context src rest (st\<lparr>body := body st @ [Item item]\<rparr>)
          else
            (let ctx = \<lparr>target = source_value d, source = src,
                        withObject = getImportAttributes d,
                        config = context_config context, env = context_env context\<rparr>;
                 (out, cache') =
                   run_predicate (shouldStrip (length (predicate_calls st)) ctx)
                     (resolvedTarget h context file_id (source_value d)) (cache st);
                 st' = st\<lparr>cache := cache', predicate_calls := predicate_calls st @ [(ctx, out)]\<rparr>
             in case out of
                  Throws e \<Rightarrow> (st', Some e)
                | _ \<Rightarrow>
                  scatter h file_id shouldStrip context src rest
                    (st'\<lparr>body := body st' @ [Decision d out]\<rparr>)))"

text \<open>\<open>Set.prototype.add\<close>, the set kept in insertion order.\<close>

definition set_add :: "string \<Rightarrow> string list \<Rightarrow> string list" where
  "set_add x xs = (if x \<in> set xs then xs else xs @ [x])"

text \<open>
  What the callbacks and \<open>Promise.all\<close> update: the array of values (\<open>None\<close> is null, or
  a slot not yet filled), the two sets of the transform, and the first rejection.
\<close>

record gather_state =
  results :: "module_item option list"
  stripped_targets :: "string list"
  stripped_symbols :: "string list"
  first_rejection :: "error option"

text \<open>The callback \<open>(strip: boolean) => ...\<close> of one import.\<close>

definition on_decided ::
  "import_declaration \<Rightarrow> bool \<Rightarrow> gather_state \<Rightarrow> module_item option \<times> gather_state" where
  "on_decided item strip st =
     (if \<not> strip then (Some (ImportDeclaration item), st)
      else (None,
            st\<lparr>stripped_targets := set_add (source_value item) (stripped_targets st),
               stripped_symbols :=
                 fold (\<lambda>spec. set_add (local_value spec)) (specifiers item) (stripped_symbols st)\<rparr>))"

text \<open>
  One promise of the array settles: a fulfilled one runs its callback and \<open>Promise.all\<close>
  stores the value at the promise's index; the first rejected one rejects \<open>Promise.all\<close>.
\<close>

fun settle :: "nat \<times> entry \<Rightarrow> gather_state \<Rightarrow> gather_state" where
  "settle (i, Decision item (Fulfils t strip)) st =
     (let (v, st') = on_decided item strip st in st'\<lparr>results := (results st')[i := v]\<rparr>)"
| "settle (i, Decision item (Rejects t e)) st =
     (case first_rejection st of
        None \<Rightarrow> st\<lparr>first_rejection := Some e\<rparr>
      | Some e0 \<Rightarrow> st)"
| "settle (i, Decision item (Throws e)) st = st"
| "settle (i, Decision item Pending) st = st"
| "settle (i, Item it) st = st"

fun settles :: "entry \<Rightarrow> bool" where
  "settles (Decision item (Fulfils t strip)) = True"
| "settles (Decision item (Rejects t e)) = True"
| "settles (Decision item (Throws e)) = False"
| "settles (Decision item Pending) = False"
| "settles (Item it) = False"

fun completion_time :: "entry \<Rightarrow> nat" where
  "completion_time (Decision item (Fulfils t strip)) = t"
| "completion_time (Decision item (Rejects t e)) = t"
| "completion_time (Decision item (Throws e)) = 0"
| "completion_time (Decision item Pending) = 0"
| "completion_time (Item it) = 0"

text \<open>The promises that settle, with their indices, in the order in which they settle.\<close>

definition completion_order :: "entry list \<Rightarrow> (nat \<times> entry) list" where
  "completion_order es =
     sort_key (\<lambda>(i, e). completion_time e) (filter (\<lambda>(i, e). settles e) (enumerate 0 es))"

fun initial_value :: "entry \<Rightarrow> module_item option" where
  "initial_value (Item it) = Some it"
| "initial_value (Decision item out) = None"

definition new_gather :: "entry list \<Rightarrow> gather_state" where
  "new_gather es =
     \<lparr>results = map initial_value es, stripped_targets = [], stripped_symbols = [],
      first_rejection = None\<rparr>"

fun never_settles :: "entry \<Rightarrow> bool" where
  "never_settles (Decision item Pending) = True"
| "never_settles (Decision item (Fulfils t strip)) = False"
| "never_settles (Decision item (Rejects t e)) = False"
| "never_settles (Decision item (Throws e)) = False"
| "never_settles (Item it) = False"

text \<open>\<open>await Promise.all(body)\<close>\<close>

definition promise_all :: "entry list \<Rightarrow> gather_state awaited" where
  "promise_all es =
     (let st = fold settle (completion_order es) (new_gather es)
      in case first_rejection st of
           Some e \<Rightarrow> Rejected e
         | None \<Rightarrow> if list_ex never_settles es then Forever else Resolved st)"

record transform_result =
  code :: string
  source_map :: "string option"
  strippedImportTargets :: "string list"
  strippedImportSymbols :: "string list"
  relativeSource :: string

text \<open>
  What a transform did to the outside: the calls of \<open>parse\<close>, the invocations of the
  predicate (the context passed and how the invocation ends), the calls of the resolution
  service and the calls of \<open>print\<close>.
\<close>

record effects =
  parse_calls :: "(string \<times> bool) list"
  invoked :: "(should_strip_context \<times> outcome) list"
  resolutions :: "(string \<times> string) list"
  print_calls :: "(module_item list \<times> string) list"

definition no_effects :: effects where
  "no_effects = \<lparr>parse_calls = [], invoked = [], resolutions = [], print_calls = []\<rparr>"

definition transform ::
  "host \<Rightarrow> string \<Rightarrow> string \<Rightarrow> ShouldStripFn \<Rightarrow> transform_context \<Rightarrow>
   effects \<times> transform_result option awaited" where
  "transform h source_text file_id shouldStrip context =
     (let tsx = endsWith ''.tsx'' file_id
      in case parse h source_text tsx of
           Inl e \<Rightarrow> (no_effects\<lparr>parse_calls := [(source_text, tsx)]\<rparr>, Rejected e)
         | Inr mod_body \<Rightarrow>
             (let src = relativeToRoot h file_id (root (context_config context));
                  (st, thrown) = scatter h file_id shouldStrip context src mod_body new_loop;
                  fx = \<lparr>parse_calls = [(source_text, tsx)], invoked = predicate_calls st,
                        resolutions = resolve_calls (cache st), print_calls = []\<rparr>
              in case thrown of
                   Some e \<Rightarrow> (fx, Rejected e)
                 | None \<Rightarrow>
                     (case promise_all (body st) of
                        Rejected e \<Rightarrow> (fx, Rejected e)
                      | Forever \<Rightarrow> (fx, Forever)
                      | Resolved g \<Rightarrow>
                          (let new_body = List.map_filter (\<lambda>r. r) (results g)
                           in if stripped_symbols g = [] then (fx, Resolved None)
                              else
                                (let (out_code, out_map) = print h new_body src
                                 in (fx\<lparr>print_calls := [(new_body, src)]\<rparr>,
                                     Resolved
                                       (Some \<lparr>code = out_code, source_map = out_map,
                                              strippedImportTargets = stripped_targets g,
                                              strippedImportSymbols = stripped_symbols g,
                                              relativeSource = src\<rparr>)))))))"

section \<open>check.ts\<close>

record UndefinedRef =
  name :: string
  line :: "nat option"
  column :: "nat option"

text \<open>\<open>String.prototype.split\<close> with a separator of one character.\<close>

fun split_on :: "char \<Rightarrow> string \<Rightarrow> string list" where
  "split_on c [] = [[]]"
| "split_on c (x # xs) =
     (if x = c then [] # split_on c xs
      else (case split_on c xs of
              p # ps \<Rightarrow> (x # p) # ps
            | [] \<Rightarrow> [[x]]))"

text \<open>\<open>msg.message.split("'")[1] ?? null\<close>\<close>

definition quoted_name :: "string \<Rightarrow> string option" where
  "quoted_name m = (case split_on (CHR 0x27) m of a # b # rest \<Rightarrow> Some b | _ \<Rightarrow> None)"

text \<open>The loop of \<open>findUndefinedRefs\<close> over the linter's messages, with \<open>seen\<close> and \<open>refs\<close>.\<close>

fun undefined_refs_loop ::
  "lint_message list \<Rightarrow> string list \<Rightarrow> UndefinedRef list \<Rightarrow> UndefinedRef list" where
  "undefined_refs_loop [] seen refs = refs"
| "undefined_refs_loop (msg # rest) seen refs =
     (if ruleId msg \<noteq> Some ''no-undef'' then undefined_refs_loop rest seen refs
      else
        (case quoted_name (message msg) of
           None \<Rightarrow> undefined_refs_loop rest seen refs
         | Some nm \<Rightarrow>
             if nm = [] \<or> nm \<in> set seen then undefined_refs_loop rest seen refs
             else undefined_refs_loop rest (set_add nm seen)
                    (refs @ [\<lparr>name = nm, line = Some (msg_line msg),
                              column = Some (msg_column msg)\<rparr>])))"

definition findUndefinedRefs :: "host \<Rightarrow> string \<Rightarrow> UndefinedRef list" where
  "findUndefinedRefs h chunk_text = undefined_refs_loop (linter_verify h chunk_text) [] []"

text \<open>
  A chunk of the bundle, as Rollup describes it: \<open>modules\<close> stands for the keys of the
  \<open>modules\<close> object, \<open>chunk_map\<close> for the \<open>map\<close> field (its payload, or null).
\<close>

record OutputChunk =
  chunk_code :: string
  moduleIds :: "string list option"
  modules :: "string list option"
  chunk_map :: "string option"
  sourcemapFileName :: "string option"
  fileName :: string

datatype bundle_output = Chunk OutputChunk | Asset string

text \<open>
  The Origin Registry \<open>importSymbolsToSource\<close>, a \<open>Map\<close>: its entries in insertion order,
  no key twice.
\<close>

type_synonym registry = "(string \<times> string list) list"

text \<open>\<open>Map.prototype.set\<close>\<close>

fun map_set :: "string \<Rightarrow> string list \<Rightarrow> registry \<Rightarrow> registry" where
  "map_set k v [] = [(k, v)]"
| "map_set k v ((k', v') # m) = (if k' = k then (k, v) # m else (k', v') # map_set k v m)"

text \<open>\<open>Array.prototype.join\<close>\<close>

fun join :: "string \<Rightarrow> string list \<Rightarrow> string" where
  "join sep [] = []"
| "join sep [x] = x"
| "join sep (x # y # ys) = x @ sep @ join sep (y # ys)"

text \<open>The truth value of an optional string: undefined, null and the empty string are false.\<close>

fun truthy :: "string option \<Rightarrow> bool" where
  "truthy None = False"
| "truthy (Some s) = (s \<noteq> [])"

definition binding_message :: "string \<Rightarrow> string list \<Rightarrow> string" where
  "binding_message nm ids =
     ''Stripped conditional import binding '' @ [CHR 0x27] @ nm @ [CHR 0x27] @
     '' still in output ('' @ join '', '' ids @ '')''"

text \<open>
  The loop of \<open>checkChunk\<close> over the undefined references, with \<open>errors\<close> and the
  \<open>traceMap\<close> that is built at most once. \<open>sort\<close> orders strings by the codes of their
  characters, as \<open>Array.prototype.sort\<close> does.
\<close>

fun check_refs ::
  "host \<Rightarrow> OutputChunk \<Rightarrow> registry \<Rightarrow> string \<Rightarrow> string option \<Rightarrow> string list \<Rightarrow>
   UndefinedRef list \<Rightarrow> string list \<times> trace_map option \<Rightarrow> string list \<times> trace_map option" where
  "check_refs h chunk importSymbolsToSource rt outputDir moduleIdsInChunk [] acc = acc"
| "check_refs h chunk importSymbolsToSource rt outputDir moduleIdsInChunk (undefinedRef # rest)
     (errors, traceMap) =
     (case map_of importSymbolsToSource (name undefinedRef) of
        None \<Rightarrow>
          check_refs h chunk importSymbolsToSource rt outputDir moduleIdsInChunk rest
            (errors, traceMap)
      | Some sourceIds \<Rightarrow>
          (let relevantSourceIds = filter (\<lambda>i. i \<in> set moduleIdsInChunk) sourceIds
           in if relevantSourceIds = []
              then check_refs h chunk importSymbolsToSource rt outputDir moduleIdsInChunk rest
                     (errors, traceMap)
              else
                (let (sourceOfError, traceMap') =
                       (case (chunk_map chunk, line undefinedRef, column undefinedRef) of
                          (Some m, Some l, Some c) \<Rightarrow>
                            (let url =
                                   (case outputDir of
                                      None \<Rightarrow> None
                                    | Some dir \<Rightarrow>
                                        if dir = [] then None
                                        else Some (path_join h dir
                                               (case sourcemapFileName chunk of
                                                  Some f \<Rightarrow> f
                                                | None \<Rightarrow> fileName chunk @ ''.map'')));
                                 tm = (case traceMap of
                                         Some t \<Rightarrow> t
                                       | None \<Rightarrow> \<lparr>payload = m, mapUrl = url\<rparr>)
                             in (originalPositionFor h tm l c, Some tm))
                        | _ \<Rightarrow> (None, traceMap));
                     errorSourceIds =
                       (if truthy sourceOfError then [the sourceOfError] else relevantSourceIds);
                     relativeSourceIds =
                       (if truthy outputDir then map (\<lambda>i. relativeToRoot h i rt) errorSourceIds
                        else errorSourceIds)
                 in check_refs h chunk importSymbolsToSource rt outputDir moduleIdsInChunk rest
                      (errors @ [binding_message (name undefinedRef) (sort relativeSourceIds)],
                       traceMap'))))"

definition checkChunk ::
  "host \<Rightarrow> OutputChunk \<Rightarrow> registry \<Rightarrow> string \<Rightarrow> string option \<Rightarrow> string list" where
  "checkChunk h chunk importSymbolsToSource rt outputDir =
     (let undefinedRefs = findUndefinedRefs h (chunk_code chunk)
      in if undefinedRefs = [] then []
         else
           (let moduleIdsInChunk =
                  (case moduleIds chunk of
                     Some ids \<Rightarrow> ids
                   | None \<Rightarrow> (case modules chunk of Some ks \<Rightarrow> ks | None \<Rightarrow> []))
            in fst (check_refs h chunk importSymbolsToSource rt outputDir moduleIdsInChunk
                      undefinedRefs ([], None))))"



section \<open>index.ts\<close>

record Options =
  autoSourceMaps :: "bool option"
  applyInServe :: "bool option"

datatype sourcemap_setting = SourcemapFlag bool | SourcemapInline | SourcemapHidden


text \<open>The variables the hooks of one plugin instance share.\<close>

record plugin_state =
  pluginRequestedSourcemap :: bool
  importSymbolsToSource :: registry
  cachedConfig :: "resolved_config option"
  cachedEnv :: "config_env option"

definition new_plugin :: plugin_state where
  "new_plugin =
     \<lparr>pluginRequestedSourcemap = False, importSymbolsToSource = [],
      cachedConfig = None, cachedEnv = None\<rparr>"





text \<open>
  \<open>/\.(tsx?|jsx?|mts|mjs)$/.test(id)\<close>: the id ends with a dot and one of the six
  alternatives.
\<close>

definition script_id :: "string \<Rightarrow> bool" where
  "script_id file_id =
     list_ex (\<lambda>alt. endsWith (''.'' @ alt) file_id)
       [''ts'', ''tsx'', ''js'', ''jsx'', ''mts'', ''mjs'']"

text \<open>
  The loop over \<open>result.strippedImportSymbols\<close>: the file's id is appended to the list of
  each name.
\<close>

fun record_origins :: "string \<Rightarrow> string list \<Rightarrow> registry \<Rightarrow> registry" where
  "record_origins file_id [] reg = reg"
| "record_origins file_id (nm # names) reg =
     (let list = (case map_of reg nm of Some l \<Rightarrow> l | None \<Rightarrow> []) @ [file_id]
      in record_origins file_id names (map_set nm list reg))"

record hook_output =
  out_code :: string
  out_map :: "string option"

text \<open>
  One run of the hook \<open>transform\<close>: what it did to the outside, the lines it logged (the
  relative source and the target), its result (\<open>None\<close> is null) and the state it leaves.
\<close>

record hook_run =
  done_effects :: effects
  logged :: "(string \<times> string) list"
  answer :: "hook_output option awaited"
  state_after :: plugin_state

definition plugin_transform ::
  "host \<Rightarrow> ShouldStripFn \<Rightarrow> string \<Rightarrow> string \<Rightarrow> plugin_state \<Rightarrow> hook_run" where
  "plugin_transform h shouldStrip source_text file_id st =
     (case (cachedConfig st, cachedEnv st) of
        (Some c, Some e) \<Rightarrow>
          if \<not> script_id file_id
          then \<lparr>done_effects = no_effects, logged = [], answer = Resolved None, state_after = st\<rparr>
          else
            (let (fx, result) =
                   transform h source_text file_id shouldStrip
                     \<lparr>resolve = this_resolve h, context_config = c, context_env = e\<rparr>
             in case result of
                  Rejected err \<Rightarrow>
                    \<lparr>done_effects = fx, logged = [], answer = Rejected err, state_after = st\<rparr>
                | Forever \<Rightarrow>
                    \<lparr>done_effects = fx, logged = [], answer = Forever, state_after = st\<rparr>
                | Resolved None \<Rightarrow>
                    \<lparr>done_effects = fx, logged = [], answer = Resolved None, state_after = st\<rparr>
                | Resolved (Some r) \<Rightarrow>
                    \<lparr>done_effects = fx,
                     logged = map (\<lambda>t. (relativeSource r, t)) (strippedImportTargets r),
                     answer = Resolved (Some \<lparr>out_code = code r, out_map = source_map r\<rparr>),
                     state_after =
                       st\<lparr>importSymbolsToSource :=
                            record_origins file_id (strippedImportSymbols r)
                              (importSymbolsToSource st)\<rparr>\<rparr>)
      | _ \<Rightarrow>
          \<lparr>done_effects = no_effects, logged = [],
           answer = Rejected (Error ''vite-plugin-conditional-imports: config or env not resolved''),
           state_after = st\<rparr>)"


text \<open>The hook \<open>writeBundle\<close>: the files it unlinks.\<close>

definition plugin_writeBundle ::
  "host \<Rightarrow> string option \<Rightarrow> (string \<times> bundle_output) list \<Rightarrow> plugin_state \<Rightarrow> string list" where
  "plugin_writeBundle h output_dir bundle st =
     (if \<not> pluginRequestedSourcemap st \<or> \<not> truthy output_dir then []
      else map (\<lambda>nm. path_join h (the output_dir) nm)
             (filter (\<lambda>nm. endsWith ''.map'' nm) (map fst bundle)))"

section \<open>Runs of the plugin\<close>

text \<open>
  A run of reads of the getter on one cache, in any order: each read by the target of the
  context that is read; the promises returned, and the resolver in the end.
\<close>

fun read_all ::
  "host \<Rightarrow> transform_context \<Rightarrow> string \<Rightarrow> string list \<Rightarrow> resolver \<Rightarrow> promise list \<times> resolver" where
  "read_all h context file_id [] st = ([], st)"
| "read_all h context file_id (t # rest) st =
     (let (p, st') = resolvedTarget h context file_id t st;
          (ps, st'') = read_all h context file_id rest st'
      in (p # ps, st''))"




section \<open>Notions of the specification\<close>

text \<open>
  The literal expressions: strings, booleans, numbers and null. An entry of a metadata
  clause is literal when it is a \<open>key: value\<close> pair whose value is a literal.
\<close>

fun literal :: "expression \<Rightarrow> bool" where
  "literal (Identifier s) = False"
| "literal (StringLiteral s) = True"
| "literal (BooleanLiteral b) = True"
| "literal (NumericLiteral n) = True"
| "literal NullLiteral = True"
| "literal OtherExpression = False"

fun literal_entry :: "property \<Rightarrow> bool" where
  "literal_entry (KeyValueProperty k v) = literal v"
| "literal_entry (ShorthandProperty s) = False"
| "literal_entry (AccessorProperty k) = False"
| "literal_entry (SpreadElement e) = False"

text \<open>The node kinds that have a \<open>value\<close> field.\<close>

fun has_value_field :: "expression \<Rightarrow> bool" where
  "has_value_field (Identifier s) = True"
| "has_value_field (StringLiteral s) = True"
| "has_value_field (BooleanLiteral b) = True"
| "has_value_field (NumericLiteral n) = True"
| "has_value_field NullLiteral = False"
| "has_value_field OtherExpression = False"

text \<open>An entry the extractor can read: a pair whose key and value both have the field.\<close>

fun readable_entry :: "property \<Rightarrow> bool" where
  "readable_entry (KeyValueProperty k v) = (has_value_field k \<and> has_value_field v)"
| "readable_entry (ShorthandProperty s) = False"
| "readable_entry (AccessorProperty k) = False"
| "readable_entry (SpreadElement e) = False"

text \<open>The key and value an entry contributes, if any.\<close>

fun entry_of :: "property \<Rightarrow> (string \<times> scalar) list" where
  "entry_of (KeyValueProperty k v) =
     (case (node_value k, node_value v) of
        (Some kk, Some vv) \<Rightarrow> [(to_property_key kk, vv)]
      | _ \<Rightarrow> [])"
| "entry_of (ShorthandProperty s) = []"
| "entry_of (AccessorProperty k) = []"
| "entry_of (SpreadElement e) = []"

text \<open>
  The mapping a metadata clause denotes: each key to the value of its last readable
  entry (the key \<open>__proto__\<close> apart, which names no own property).
\<close>

definition clause_mapping :: "object_expression \<Rightarrow> attributes" where
  "clause_mapping obj =
     map_of (rev (filter (\<lambda>(k, v). k \<noteq> ''__proto__'') (concat (map entry_of (properties obj)))))"

text \<open>The modules that contributed to a chunk.\<close>

definition contributing :: "OutputChunk \<Rightarrow> string list" where
  "contributing c =
     (case moduleIds c of
        Some ids \<Rightarrow> ids
      | None \<Rightarrow> (case modules c of Some ks \<Rightarrow> ks | None \<Rightarrow> []))"

text \<open>
  The origins the registry lists for a name, restricted to the modules that contributed to
  the chunk; empty when the registry does not know the name.
\<close>

definition restricted_origins :: "registry \<Rightarrow> OutputChunk \<Rightarrow> string \<Rightarrow> string list" where
  "restricted_origins reg c nm =
     filter (\<lambda>i. i \<in> set (contributing c))
       (case map_of reg nm of Some ids \<Rightarrow> ids | None \<Rightarrow> [])"

text \<open>The address of the chunk's map file, when an output directory is known.\<close>

definition map_url :: "host \<Rightarrow> OutputChunk \<Rightarrow> string option \<Rightarrow> string option" where
  "map_url h c dir =
     (case dir of
        None \<Rightarrow> None
      | Some d \<Rightarrow>
          if d = [] then None
          else Some (path_join h d
                 (case sourcemapFileName c of Some f \<Rightarrow> f | None \<Rightarrow> fileName c @ ''.map'')))"

text \<open>
  The originating file of a reference, when the chunk carries a source map and the line
  and column of the reference localize through it.
\<close>

definition localized :: "host \<Rightarrow> OutputChunk \<Rightarrow> string option \<Rightarrow> UndefinedRef \<Rightarrow> string option" where
  "localized h c dir r =
     (case (chunk_map c, line r, column r) of
        (Some m, Some l, Some col) \<Rightarrow>
          (case originalPositionFor h \<lparr>payload = m, mapUrl = map_url h c dir\<rparr> l col of
             Some s \<Rightarrow> if s = [] then None else Some s
           | None \<Rightarrow> None)
      | _ \<Rightarrow> None)"

text \<open>Origins as a message shows them: relative to the root when an output directory is known.\<close>

definition rendered :: "host \<Rightarrow> string \<Rightarrow> string option \<Rightarrow> string list \<Rightarrow> string list" where
  "rendered h rt dir ids = (if truthy dir then map (\<lambda>i. relativeToRoot h i rt) ids else ids)"

text \<open>
  The message the verifier owes for one undefined reference of a chunk, if any: none when
  no origin of the name contributed to the chunk; else the single localized file, or the
  restricted origins, rendered and sorted.
\<close>

definition reported ::
  "host \<Rightarrow> OutputChunk \<Rightarrow> registry \<Rightarrow> string \<Rightarrow> string option \<Rightarrow> UndefinedRef \<Rightarrow> string option" where
  "reported h c reg rt dir r =
     (let origins = restricted_origins reg c (name r)
      in if origins = [] then None
         else Some (binding_message (name r)
                (sort (rendered h rt dir
                   (case localized h c dir r of Some s \<Rightarrow> [s] | None \<Rightarrow> origins)))))"



text \<open>
  What the loop of \<open>checkChunk\<close> keeps true of \<open>traceMap\<close>: it is null, or the index built
  from the chunk's map and the address of its file.
\<close>

definition tm_ok :: "host \<Rightarrow> OutputChunk \<Rightarrow> string option \<Rightarrow> trace_map option \<Rightarrow> bool" where
  "tm_ok h c dir tm =
     (case tm of
        None \<Rightarrow> True
      | Some t \<Rightarrow> (case chunk_map c of
                     Some m \<Rightarrow> t = \<lparr>payload = m, mapUrl = map_url h c dir\<rparr>
                   | None \<Rightarrow> False))"


text \<open>
  What the resolver keeps true of its cache and its log: a target is cached exactly when
  a call for it is logged, and no target is logged twice.
\<close>

definition cache_ok :: "resolver \<Rightarrow> bool" where
  "cache_ok st =
     (dom (resolveCache st) = set (map fst (resolve_calls st)) \<and>
      distinct (map fst (resolve_calls st)))"

text \<open>
  The imports that reach the predicate: the import declarations that are not type-only.
\<close>

fun runtime_import :: "module_item \<Rightarrow> bool" where
  "runtime_import (ImportDeclaration d) = (\<not> typeOnly d)"
| "runtime_import (Statement s) = False"

fun runtime_imports :: "module_item list \<Rightarrow> import_declaration list" where
  "runtime_imports [] = []"
| "runtime_imports (ImportDeclaration d # rest) =
     (if typeOnly d then runtime_imports rest else d # runtime_imports rest)"
| "runtime_imports (Statement s # rest) = runtime_imports rest"

text \<open>The context the transform builds for an import.\<close>

definition context_for ::
  "transform_context \<Rightarrow> string \<Rightarrow> import_declaration \<Rightarrow> should_strip_context" where
  "context_for context src d =
     \<lparr>target = source_value d, source = src, withObject = getImportAttributes d,
      config = context_config context, env = context_env context\<rparr>"

text \<open>The local names an import binds.\<close>

definition bound_names :: "import_declaration \<Rightarrow> string list" where
  "bound_names d = map local_value (specifiers d)"

text \<open>The statement an element of the array stands for.\<close>

fun entry_item :: "entry \<Rightarrow> module_item" where
  "entry_item (Item it) = it"
| "entry_item (Decision d out) = ImportDeclaration d"

fun throws :: "outcome \<Rightarrow> bool" where
  "throws (Throws e) = True"
| "throws (Fulfils t b) = False"
| "throws (Rejects t e) = False"
| "throws Pending = False"

text \<open>An invocation fails when it throws or its promise is rejected; the error it fails with.\<close>

fun failure :: "outcome \<Rightarrow> error option" where
  "failure (Throws e) = Some e"
| "failure (Rejects t e) = Some e"
| "failure (Fulfils t b) = None"
| "failure Pending = None"

text \<open>An invocation decides to strip when its promise is fulfilled with true.\<close>

fun decides_strip :: "outcome \<Rightarrow> bool" where
  "decides_strip (Fulfils t b) = b"
| "decides_strip (Throws e) = False"
| "decides_strip (Rejects t e) = False"
| "decides_strip Pending = False"

text \<open>The elements of the array that are promises, as the import and the outcome.\<close>

fun decisions :: "entry list \<Rightarrow> (import_declaration \<times> outcome) list" where
  "decisions [] = []"
| "decisions (Item it # es) = decisions es"
| "decisions (Decision d out # es) = (d, out) # decisions es"

text \<open>
  The value \<open>Promise.all\<close> holds for an element in the end: the statement; the import,
  for a promise fulfilled with false; null for a promise fulfilled with true (and for one
  that is not fulfilled, whose slot is never filled).
\<close>

fun final_value :: "entry \<Rightarrow> module_item option" where
  "final_value (Item it) = Some it"
| "final_value (Decision d (Fulfils t strip)) = (if strip then None else Some (ImportDeclaration d))"
| "final_value (Decision d (Rejects t e)) = None"
| "final_value (Decision d (Throws e)) = None"
| "final_value (Decision d Pending) = None"

fun fulfilled :: "entry \<Rightarrow> bool" where
  "fulfilled (Decision d (Fulfils t strip)) = True"
| "fulfilled (Decision d (Rejects t e)) = False"
| "fulfilled (Decision d (Throws e)) = False"
| "fulfilled (Decision d Pending) = False"
| "fulfilled (Item it) = False"

text \<open>The error of a promise of the array that is rejected.\<close>

fun rejection :: "entry \<Rightarrow> error option" where
  "rejection (Decision d (Rejects t e)) = Some e"
| "rejection (Decision d (Fulfils t strip)) = None"
| "rejection (Decision d (Throws e)) = None"
| "rejection (Decision d Pending) = None"
| "rejection (Item it) = None"

text \<open>The names that an element of the array adds to the set of stripped names.\<close>

fun stripped_names :: "entry \<Rightarrow> string list" where
  "stripped_names (Decision d out) = (if decides_strip out then bound_names d else [])"
| "stripped_names (Item it) = []"

text \<open>
  The shape of the array the loop builds: statements and type-only imports as they are,
  promises for the other imports, none for an invocation that threw.
\<close>

fun loop_entry :: "entry \<Rightarrow> bool" where
  "loop_entry (Item it) = (\<not> runtime_import it)"
| "loop_entry (Decision d out) = (\<not> typeOnly d \<and> \<not> throws out)"

text \<open>
  Another order of completion: the completion times of an outcome, of a behaviour and of
  every invocation of a predicate changed by a function (one for each invocation).
\<close>

fun restamp :: "(nat \<Rightarrow> nat) \<Rightarrow> outcome \<Rightarrow> outcome" where
  "restamp g (Fulfils t b) = Fulfils (g t) b"
| "restamp g (Rejects t e) = Rejects (g t) e"
| "restamp g (Throws e) = Throws e"
| "restamp g Pending = Pending"

primrec retime :: "(nat \<Rightarrow> nat) \<Rightarrow> behaviour \<Rightarrow> behaviour" where
  "retime g (Finish out) = Finish (restamp g out)"
| "retime g (ReadResolvedTarget k) = ReadResolvedTarget (\<lambda>v. retime g (k v))"

definition retimed :: "(nat \<Rightarrow> nat \<Rightarrow> nat) \<Rightarrow> ShouldStripFn \<Rightarrow> ShouldStripFn" where
  "retimed G shouldStrip = (\<lambda>n ctx. retime (G n) (shouldStrip n ctx))"

text \<open>An element of the array, its completion time forgotten.\<close>

fun untimed :: "entry \<Rightarrow> entry" where
  "untimed (Item it) = Item it"
| "untimed (Decision d out) = Decision d (restamp (\<lambda>t. 0) out)"

text \<open>
  What a transform gives the build: null, or the code and the map; a failure (whichever
  the error); or nothing at all.
\<close>

fun outward :: "transform_result option awaited \<Rightarrow> (string \<times> string option) option awaited" where
  "outward (Resolved None) = Resolved None"
| "outward (Resolved (Some r)) = Resolved (Some (code r, source_map r))"
| "outward (Rejected e) = Rejected (Error [])"
| "outward Forever = Forever"

text \<open>
  The statements that are retained, given how the invocations of the predicate end, one
  after the other for the imports that reach it: every statement but the imports decided
  strip, in the order of the source.
\<close>

fun retain :: "module_item list \<Rightarrow> outcome list \<Rightarrow> module_item list" where
  "retain [] outs = []"
| "retain (it # rest) outs =
     (if runtime_import it
      then (case outs of
              [] \<Rightarrow> it # retain rest []
            | out # outs' \<Rightarrow> if decides_strip out then retain rest outs' else it # retain rest outs')
      else it # retain rest outs)"

text \<open>What the loop of the transform keeps true: the resolver's invariant, and that only
  targets of invoked imports are resolved.\<close>

definition loop_ok :: "loop_state \<Rightarrow> bool" where
  "loop_ok st =
     (cache_ok (cache st) \<and>
      set (map fst (resolve_calls (cache st))) \<subseteq> set (map (\<lambda>c. target (fst c)) (predicate_calls st)))"

text \<open>Two states of the loop that differ in completion times only.\<close>

definition same_but_times :: "loop_state \<Rightarrow> loop_state \<Rightarrow> bool" where
  "same_but_times st1 st2 =
     (cache st2 = cache st1 \<and>
      length (predicate_calls st2) = length (predicate_calls st1) \<and>
      map untimed (body st2) = map untimed (body st1))"

text \<open>
  What a transform gives the build, from whether an invocation threw and from the array
  the loop built: a function of the array with the completion times forgotten.
\<close>

definition rejected :: "entry \<Rightarrow> bool" where
  "rejected e = (rejection e \<noteq> None)"

definition summary ::
  "host \<Rightarrow> string \<Rightarrow> error option \<Rightarrow> entry list \<Rightarrow> (string \<times> string option) option awaited" where
  "summary h src thrown es =
     (case thrown of
        Some e \<Rightarrow> Rejected (Error [])
      | None \<Rightarrow>
          if list_ex rejected es then Rejected (Error [])
          else if list_ex never_settles es then Forever
          else if list_all (\<lambda>e. stripped_names e = []) es then Resolved None
          else Resolved (Some (print h (List.map_filter (\<lambda>r. r) (map final_value es)) src)))"

section \<open>A host and a project to run the plugin on\<close>

text \<open>
  Stand-ins for the services of the host, enough to run the definitions above on the
  fixtures of the repository's tests: paths below the root are made relative by dropping
  the root, every \<open>./x\<close> resolves to \<open>/app/x.ts\<close>, the printer writes the statements one
  after the other, and the linter reports \<open>debug\<close> and \<open>devOnly\<close> where a chunk's text
  names them.
\<close>

definition fixture_relative :: "string \<Rightarrow> string \<Rightarrow> string" where
  "fixture_relative from_dir to_path =
     (if startsWith (from_dir @ ''/'') to_path then drop (length from_dir + 1) to_path
      else ''../'' @ to_path)"

fun item_text :: "module_item \<Rightarrow> string" where
  "item_text (Statement s) = s @ '';''"
| "item_text (ImportDeclaration d) = ''import '' @ source_value d @ '';''"

definition fixture_resolve :: "string \<Rightarrow> string \<Rightarrow> error + string option" where
  "fixture_resolve t importer =
     (if startsWith ''./'' t then Inr (Some (''/app/'' @ drop 2 t @ ''.ts'')) else Inr None)"

definition not_defined :: "string \<Rightarrow> nat \<Rightarrow> nat \<Rightarrow> lint_message" where
  "not_defined nm l c =
     \<lparr>ruleId = Some ''no-undef'', message = [CHR 0x27] @ nm @ [CHR 0x27] @ '' is not defined.'',
      msg_line = l, msg_column = c\<rparr>"

definition fixture_verify :: "string \<Rightarrow> lint_message list" where
  "fixture_verify chunk_text =
     (if chunk_text = ''debug()'' then [not_defined ''debug'' 1 1, not_defined ''debug'' 3 1]
      else if chunk_text = ''devOnly.a(); devOnly.b()''
      then [not_defined ''devOnly'' 1 1, not_defined ''devOnly'' 1 14]
      else if chunk_text = ''debug(); devOnly.a()''
      then [not_defined ''debug'' 1 1, not_defined ''devOnly'' 1 10]
      else [])"

definition fixture_host :: host where
  "fixture_host =
     \<lparr>path_relative = fixture_relative,
      path_isAbsolute = startsWith ''/'',
      path_join = (\<lambda>a b. a @ ''/'' @ b),
      normalizePath = (\<lambda>p. p),
      parse = (\<lambda>source_text tsx. Inl (Error ''syntax error'')),
      print = (\<lambda>items file. (concat (map item_text items), Some file)),
      this_resolve = fixture_resolve,
      linter_verify = fixture_verify,
      originalPositionFor = (\<lambda>tm l c. if payload tm = ''to a.ts'' then Some ''/app/a.ts'' else None)\<rparr>"

text \<open>The fixture host with a parser that knows one file: its text and its statements.\<close>

definition host_parsing :: "string \<Rightarrow> module_item list \<Rightarrow> host" where
  "host_parsing source_text items =
     fixture_host\<lparr>parse :=
       (\<lambda>t tsx. if t = source_text then Inr items else Inl (Error ''syntax error''))\<rparr>"

definition fixture_config :: resolved_config where
  "fixture_config = \<lparr>root = ''/app'', config_mode = ''production''\<rparr>"

definition fixture_env :: config_env where
  "fixture_env = \<lparr>command = ''build'', env_mode = ''production''\<rparr>"

definition fixture_context :: transform_context where
  "fixture_context =
     \<lparr>resolve = fixture_resolve, context_config = fixture_config, context_env = fixture_env\<rparr>"

definition ready_plugin :: plugin_state where
  "ready_plugin = new_plugin\<lparr>cachedConfig := Some fixture_config, cachedEnv := Some fixture_env\<rparr>"

text \<open>\<open>with { only: 'dev' }\<close>\<close>

definition only_dev :: object_expression where
  "only_dev = \<lparr>properties = [KeyValueProperty (Identifier ''only'') (StringLiteral ''dev'')]\<rparr>"

definition import_of :: "string \<Rightarrow> import_specifier list \<Rightarrow> object_expression option \<Rightarrow> import_declaration" where
  "import_of t specs w =
     \<lparr>source_value = t, specifiers = specs, typeOnly = False, with_clause = w, asserts = None\<rparr>"

text \<open>The predicate of the tests: strip where the attribute \<open>only\<close> is \<open>'dev'\<close>.\<close>

definition strip_dev_only :: ShouldStripFn where
  "strip_dev_only k ctx = Finish (Fulfils 0 (withObject ctx ''only'' = Some (JString ''dev'')))"

text \<open>Import declarations to evaluate the extractor on.\<close>

definition mode_test :: object_expression where
  "mode_test = \<lparr>properties = [KeyValueProperty (StringLiteral ''mode'') (StringLiteral ''test'')]\<rparr>"

definition both_forms :: import_declaration where
  "both_forms = (import_of ''bar'' [ImportDefaultSpecifier ''foo''] (Some only_dev))\<lparr>asserts := Some mode_test\<rparr>"

definition assert_form :: import_declaration where
  "assert_form = (import_of ''bar'' [ImportDefaultSpecifier ''foo''] None)\<lparr>asserts := Some only_dev\<rparr>"

definition no_clause :: import_declaration where
  "no_clause = import_of ''bar'' [ImportDefaultSpecifier ''foo''] None"

text \<open>\<open>with { [only]: 'dev', ...only, only: null, only() {} }\<close>: nothing to read.\<close>

definition unreadable_clause :: import_declaration where
  "unreadable_clause =
     import_of ''bar'' [ImportDefaultSpecifier ''foo'']
       (Some \<lparr>properties =
          [KeyValueProperty OtherExpression (StringLiteral ''dev''),
           SpreadElement (Identifier ''only''),
           KeyValueProperty (Identifier ''only'') NullLiteral,
           AccessorProperty (Identifier ''only'')]\<rparr>)"

text \<open>\<open>with { only: dev }\<close>: the value is a reference to a variable, not a literal.\<close>

definition identifier_valued :: import_declaration where
  "identifier_valued =
     import_of ''bar'' [ImportDefaultSpecifier ''foo'']
       (Some \<lparr>properties = [KeyValueProperty (Identifier ''only'') (Identifier ''dev'')]\<rparr>)"

text \<open>Chunks and registries of the tests' fixture with two source files.\<close>

definition two_files_chunk :: "string option \<Rightarrow> OutputChunk" where
  "two_files_chunk m =
     \<lparr>chunk_code = ''devOnly.a(); devOnly.b()'',
      moduleIds = Some [''/app/index.ts'', ''/app/b.ts'', ''/app/a.ts''], modules = None,
      chunk_map = m, sourcemapFileName = None, fileName = ''index.js''\<rparr>"

definition two_files_registry :: registry where
  "two_files_registry = [(''devOnly'', [''/app/b.ts'', ''/app/a.ts'', ''/app/unused.ts''])]"

definition repeated_registry :: registry where
  "repeated_registry = [(''devOnly'', [''/app/a.ts'', ''/app/a.ts''])]"

definition devOnly_ref :: UndefinedRef where
  "devOnly_ref = \<lparr>name = ''devOnly'', line = Some 1, column = Some 1\<rparr>"

text \<open>Files of the tests' fixtures, parsed, and a file whose only import binds no name.\<close>

definition type_only_file :: "module_item list" where
  "type_only_file =
     [ImportDeclaration ((import_of ''./devOnly'' [ImportSpecifier ''DevType''] None)\<lparr>typeOnly := True\<rparr>),
      ImportDeclaration (import_of ''./devOnly'' [ImportSpecifier ''devValue''] (Some only_dev)),
      Statement ''console.log(x)'']"

definition guarded_file :: "module_item list" where
  "guarded_file =
     [ImportDeclaration (import_of ''./devOnly'' [ImportSpecifier ''debug''] (Some only_dev)),
      ImportDeclaration (import_of ''./util'' [ImportDefaultSpecifier ''util''] None),
      Statement ''console.log(util())'']"

definition side_effect_file :: "module_item list" where
  "side_effect_file =
     [ImportDeclaration (import_of ''./devtools'' [] (Some only_dev)),
      Statement ''main()'']"

text \<open>
  A predicate that strips by the resolved path, awaiting \<open>ctx.resolvedTarget\<close> twice, its
  promise for the n-th import being fulfilled at time n; and a file that imports one
  module twice.
\<close>

definition strip_by_path :: ShouldStripFn where
  "strip_by_path n ctx =
     ReadResolvedTarget (\<lambda>v. ReadResolvedTarget (\<lambda>v'.
       Finish (Fulfils n (v = Inr ''devOnly.ts''))))"

definition twice_file :: "module_item list" where
  "twice_file =
     [ImportDeclaration (import_of ''./devOnly'' [ImportSpecifier ''debug''] None),
      ImportDeclaration (import_of ''./util'' [ImportDefaultSpecifier ''util''] None),
      ImportDeclaration (import_of ''./devOnly'' [ImportSpecifier ''trace''] None),
      Statement ''console.log(util())'']"

text \<open>
  A predicate whose promise for the first import is rejected, after the promise for the
  second import has been fulfilled.
\<close>

definition rejecting_first :: ShouldStripFn where
  "rejecting_first n ctx =
     (if n = 0 then Finish (Rejects 5 (Error ''boom'')) else Finish (Fulfils 0 True))"



section \<open>The attribute extractor\<close>

lemma collect_attributes_map_of:
  "collect_attributes ps out =
     out ++ map_of (rev (filter (\<lambda>(k, v). k \<noteq> ''__proto__'') (concat (map entry_of ps))))"
proof (induction ps arbitrary: out)
  case Nil
  then show ?case by simp
next
  case (Cons p ps)
  show ?case
  proof (cases p)
    case (KeyValueProperty k v)
    then show ?thesis
      using Cons.IH
      by (cases "node_value k"; cases "node_value v")
         (auto simp: getKey_def getVal_def assign_def map_add_def fun_eq_iff split: option.splits)
  qed (auto simp: Cons.IH getKey_def getVal_def split: option.splits)
qed

lemma has_value_field_iff: "has_value_field e \<longleftrightarrow> node_value e \<noteq> None"
  by (cases e) simp_all

lemma unreadable_entry_of: "\<not> readable_entry p \<Longrightarrow> entry_of p = []"
  by (cases p) (auto simp: has_value_field_iff split: option.splits)

lemma unreadable_entries_of:
  "list_all (\<lambda>p. \<not> readable_entry p) ps \<Longrightarrow> concat (map entry_of ps) = []"
  by (induction ps) (simp_all add: unreadable_entry_of)

text \<open>
  C9, as amended. The extractor reads the \<open>with\<close> clause when there is one, whatever
  the \<open>asserts\<close> field holds, and the \<open>asserts\<close> clause otherwise; with neither it returns
  the empty mapping; and an entry whose key or value node has no \<open>value\<close> field is left
  out, so that a clause of such entries only gives the empty mapping too. The function is
  total: no input makes it raise.
\<close>

theorem getImportAttributes_reads_with_then_asserts:
  "(with_clause n = Some w \<longrightarrow> getImportAttributes n = clause_mapping w) \<and>
   (with_clause n = None \<and> asserts n = Some a \<longrightarrow> getImportAttributes n = clause_mapping a) \<and>
   (with_clause n = None \<and> asserts n = None \<longrightarrow> getImportAttributes n = Map.empty) \<and>
   (list_all (\<lambda>p. \<not> readable_entry p) (getAttrList n) \<longrightarrow> getImportAttributes n = Map.empty)"
  by (simp add: getImportAttributes_def getAttrList_def getWithObject_def clause_mapping_def
      collect_attributes_map_of unreadable_entries_of)

theorem getImportAttributes_reads_with_then_asserts_witness:
  "getImportAttributes both_forms = clause_mapping only_dev \<and>
   getImportAttributes both_forms ''only'' = Some (JString ''dev'') \<and>
   getImportAttributes both_forms ''mode'' = None \<and>
   getImportAttributes assert_form ''only'' = Some (JString ''dev'') \<and>
   getImportAttributes no_clause = Map.empty \<and>
   getImportAttributes unreadable_clause = Map.empty"
  using getImportAttributes_reads_with_then_asserts [of both_forms only_dev]
    getImportAttributes_reads_with_then_asserts [of assert_form _ only_dev]
    getImportAttributes_reads_with_then_asserts [of no_clause]
    getImportAttributes_reads_with_then_asserts [of unreadable_clause]
  by (simp add: both_forms_def assert_form_def no_clause_def unreadable_clause_def import_of_def
      only_dev_def mode_test_def clause_mapping_def getAttrList_def getWithObject_def)

text \<open>
  C9 as stated fails: every entry of \<open>with { only: dev }\<close> is non-literal, and the
  extractor does not omit it; the mapping it returns is not empty.
\<close>

theorem identifier_value_not_omitted:
  "list_all (\<lambda>p. \<not> literal_entry p) (getAttrList identifier_valued) \<and>
   getImportAttributes identifier_valued ''only'' = Some (JString ''dev'') \<and>
   getImportAttributes identifier_valued \<noteq> Map.empty"
proof -
  have *: "getImportAttributes identifier_valued ''only'' = Some (JString ''dev'')"
    by (simp add: identifier_valued_def import_of_def getImportAttributes_def getAttrList_def
        getWithObject_def getKey_def getVal_def assign_def)
  then have "getImportAttributes identifier_valued \<noteq> Map.empty"
    by (metis option.distinct(1))
  with * show ?thesis
    by (simp add: identifier_valued_def import_of_def getAttrList_def getWithObject_def)
qed

section \<open>The hook \<open>transform\<close> and the ids it takes\<close>

lemma endsWith_iff: "endsWith p s \<longleftrightarrow> (\<exists>stem. s = stem @ p)"
proof
  assume "endsWith p s"
  then have "s = take (length s - length p) s @ p"
    by (metis append_take_drop_id endsWith_def)
  then show "\<exists>stem. s = stem @ p" ..
next
  assume "\<exists>stem. s = stem @ p"
  then show "endsWith p s"
    by (auto simp: endsWith_def)
qed

lemma script_id_iff:
  "script_id file_id \<longleftrightarrow>
     endsWith ''.ts'' file_id \<or> endsWith ''.tsx'' file_id \<or> endsWith ''.js'' file_id \<or>
     endsWith ''.jsx'' file_id \<or> endsWith ''.mts'' file_id \<or> endsWith ''.mjs'' file_id"
  by (simp add: script_id_def)

text \<open>
  C10, as amended. For a module whose id does not end in \<open>.ts\<close>, \<open>.tsx\<close>, \<open>.js\<close>,
  \<open>.jsx\<close>, \<open>.mts\<close> or \<open>.mjs\<close>, the hook parses nothing, invokes no predicate, calls no
  resolution, prints and logs nothing and leaves the plugin's state, the Origin Registry
  with it, as it was; it returns null once the configuration and the environment have
  been resolved, and fails with the precondition error before that.
\<close>

theorem plugin_transform_other_ids:
  assumes "\<not> endsWith ''.ts'' file_id" and "\<not> endsWith ''.tsx'' file_id"
    and "\<not> endsWith ''.js'' file_id" and "\<not> endsWith ''.jsx'' file_id"
    and "\<not> endsWith ''.mts'' file_id" and "\<not> endsWith ''.mjs'' file_id"
  shows "done_effects (plugin_transform h shouldStrip source_text file_id st) = no_effects \<and>
         logged (plugin_transform h shouldStrip source_text file_id st) = [] \<and>
         state_after (plugin_transform h shouldStrip source_text file_id st) = st \<and>
         answer (plugin_transform h shouldStrip source_text file_id st) =
           (if cachedConfig st \<noteq> None \<and> cachedEnv st \<noteq> None then Resolved None
            else Rejected (Error ''vite-plugin-conditional-imports: config or env not resolved''))"
proof -
  from assms have "\<not> script_id file_id"
    by (simp add: script_id_iff)
  then show ?thesis
    by (cases "cachedConfig st"; cases "cachedEnv st") (simp_all add: plugin_transform_def)
qed

theorem plugin_transform_other_ids_witness:
  "answer (plugin_transform fixture_host strip_dev_only ''{}'' ''/app/data.json'' ready_plugin) =
     Resolved None \<and>
   state_after (plugin_transform fixture_host strip_dev_only ''{}'' ''/app/data.json'' ready_plugin) =
     ready_plugin \<and>
   done_effects (plugin_transform fixture_host strip_dev_only ''{}'' ''/app/data.json'' ready_plugin) =
     no_effects"
  using plugin_transform_other_ids
    [of "''/app/data.json''" fixture_host strip_dev_only "''{}''" ready_plugin]
  by (simp add: endsWith_def ready_plugin_def new_plugin_def)

text \<open>
  C10 as stated fails: before the configuration is resolved the hook does not return null
  for such a module, it fails.
\<close>

theorem plugin_transform_unresolved_config_fails:
  "\<not> script_id ''/app/App.vue'' \<and>
   answer (plugin_transform fixture_host strip_dev_only ''<template/>'' ''/app/App.vue'' new_plugin) =
     Rejected (Error ''vite-plugin-conditional-imports: config or env not resolved'')"
  by (simp add: script_id_def endsWith_def plugin_transform_def new_plugin_def)

section \<open>The bundle verifier\<close>

lemma truthy_localized:
  "tm_ok h c dir tm \<Longrightarrow> chunk_map c = Some m \<Longrightarrow> line r = Some l \<Longrightarrow> column r = Some col \<Longrightarrow>
   (let s = originalPositionFor h (case tm of Some t \<Rightarrow> t | None \<Rightarrow> \<lparr>payload = m, mapUrl = map_url h c dir\<rparr>) l col
    in if truthy s then [the s] else ids) =
   (case localized h c dir r of Some s \<Rightarrow> [s] | None \<Rightarrow> ids)"
  by (cases tm; cases "originalPositionFor h \<lparr>payload = m, mapUrl = map_url h c dir\<rparr> l col")
     (auto simp: tm_ok_def localized_def Let_def)

lemma check_refs_step_none:
  "restricted_origins reg c (name r) = [] \<Longrightarrow>
   check_refs h c reg rt dir (contributing c) (r # rest) (errs, tm) =
   check_refs h c reg rt dir (contributing c) rest (errs, tm)"
  by (auto simp: restricted_origins_def split: option.splits)

lemma not_localized:
  "chunk_map c = None \<or> line r = None \<or> column r = None \<Longrightarrow> localized h c dir r = None"
  by (auto simp: localized_def split: option.splits)

lemma check_refs_step_some:
  assumes "restricted_origins reg c (name r) \<noteq> []" and "tm_ok h c dir tm"
  shows "\<exists>tm'. tm_ok h c dir tm' \<and>
     check_refs h c reg rt dir (contributing c) (r # rest) (errs, tm) =
     check_refs h c reg rt dir (contributing c) rest
       (errs @ [the (reported h c reg rt dir r)], tm')"
proof -
  obtain ids where ids: "map_of reg (name r) = Some ids"
    using assms(1) by (auto simp: restricted_origins_def split: option.splits)
  have rel: "filter (\<lambda>i. i \<in> set (contributing c)) ids = restricted_origins reg c (name r)"
    by (simp add: restricted_origins_def ids)
  show ?thesis
  proof (cases "chunk_map c = None \<or> line r = None \<or> column r = None")
    case True
    then have "localized h c dir r = None" by (rule not_localized)
    with True assms ids rel show ?thesis
      by (auto simp: reported_def rendered_def Let_def split: option.splits)
  next
    case False
    then obtain m l col where mlc: "chunk_map c = Some m" "line r = Some l" "column r = Some col"
      by auto
    let ?t = "case tm of Some t \<Rightarrow> t | None \<Rightarrow> \<lparr>payload = m, mapUrl = map_url h c dir\<rparr>"
    have ok: "tm_ok h c dir (Some ?t)"
      using assms(2) mlc by (auto simp: tm_ok_def split: option.splits)
    have url: "(case dir of None \<Rightarrow> None
        | Some d \<Rightarrow> if d = [] then None
            else Some (path_join h d (case sourcemapFileName c of Some f \<Rightarrow> f | None \<Rightarrow> fileName c @ ''.map'')))
        = map_url h c dir"
      by (simp add: map_url_def)
    from truthy_localized [OF assms(2) mlc, of "restricted_origins reg c (name r)"]
    have loc: "(if truthy (originalPositionFor h ?t l col) then [the (originalPositionFor h ?t l col)]
                else restricted_origins reg c (name r)) =
               (case localized h c dir r of Some s \<Rightarrow> [s] | None \<Rightarrow> restricted_origins reg c (name r))"
      by (simp add: Let_def)
    show ?thesis
      apply (rule exI [of _ "Some ?t"])
      apply (rule conjI [OF ok])
      using assms(1) ids rel mlc loc
      apply (simp add: url reported_def rendered_def Let_def del: truthy.simps)
      done
  qed
qed

lemma check_refs_reported:
  "tm_ok h c dir tm \<Longrightarrow>
   fst (check_refs h c reg rt dir (contributing c) refs (errs, tm)) =
     errs @ List.map_filter (reported h c reg rt dir) refs"
proof (induction refs arbitrary: errs tm)
  case Nil
  then show ?case by simp
next
  case (Cons r refs)
  show ?case
  proof (cases "restricted_origins reg c (name r) = []")
    case True
    then have "reported h c reg rt dir r = None"
      by (simp add: reported_def)
    with True Cons show ?thesis
      by (simp add: check_refs_step_none del: check_refs.simps)
  next
    case False
    then obtain msg where rep: "reported h c reg rt dir r = Some msg"
      by (simp add: reported_def)
    from check_refs_step_some [OF False Cons.prems] obtain tm' where
      "tm_ok h c dir tm'"
      "check_refs h c reg rt dir (contributing c) (r # refs) (errs, tm) =
       check_refs h c reg rt dir (contributing c) refs (errs @ [the (reported h c reg rt dir r)], tm')"
      by blast
    with Cons.IH [of tm'] show ?thesis
      using rep by (simp del: check_refs.simps)
  qed
qed

lemma checkChunk_reported:
  "checkChunk h c reg rt dir = List.map_filter (reported h c reg rt dir) (findUndefinedRefs h (chunk_code c))"
  using check_refs_reported [of h c dir None reg rt "findUndefinedRefs h (chunk_code c)" "[]"]
  by (simp add: checkChunk_def Let_def tm_ok_def contributing_def)

lemma map_filter_append:
  "List.map_filter f (xs @ ys) = List.map_filter f xs @ List.map_filter f ys"
  by (simp add: List.map_filter_def)

lemma findUndefinedRefs_two_files:
  "findUndefinedRefs fixture_host (chunk_code (two_files_chunk m)) = [] @ devOnly_ref # []"
  by (simp add: findUndefinedRefs_def fixture_host_def fixture_verify_def two_files_chunk_def
      not_defined_def quoted_name_def set_add_def devOnly_ref_def)

text \<open>
  C4. In the messages of a chunk, the one for an undefined reference whose name the
  registry knows, with an origin among the modules of the chunk, names a single file when
  the chunk carries a source map through which the line and column of the reference
  localize: it is \<open>Stripped conditional import binding '<name>' still in output (<file>)\<close>,
  the file being the one the map resolves them to (relative to the root when an output
  directory is known), whatever the restricted origins are.
\<close>

theorem checkChunk_localized_reference:
  assumes "findUndefinedRefs h (chunk_code c) = before @ r # after"
    and "map_of reg (name r) = Some ids"
    and "filter (\<lambda>i. i \<in> set (contributing c)) ids \<noteq> []"
    and "chunk_map c = Some m" and "line r = Some l" and "column r = Some col"
    and "originalPositionFor h \<lparr>payload = m, mapUrl = map_url h c dir\<rparr> l col = Some s"
    and "s \<noteq> []"
  shows "checkChunk h c reg rt dir =
           List.map_filter (reported h c reg rt dir) before @
           (''Stripped conditional import binding '' @ [CHR 0x27] @ name r @ [CHR 0x27] @
            '' still in output ('' @
            (if truthy dir then relativeToRoot h s rt else s) @
            '')'') #
           List.map_filter (reported h c reg rt dir) after"
proof -
  have "localized h c dir r = Some s"
    using assms(4-8) by (simp add: localized_def)
  then have "reported h c reg rt dir r =
      Some (binding_message (name r) [if truthy dir then relativeToRoot h s rt else s])"
    using assms(2,3) by (simp add: reported_def restricted_origins_def rendered_def)
  then show ?thesis
    by (simp add: checkChunk_reported assms(1) map_filter_append binding_message_def)
qed

theorem checkChunk_localized_reference_witness:
  "checkChunk fixture_host (two_files_chunk (Some ''to a.ts'')) two_files_registry ''/app''
     (Some ''/app/dist'') =
     [''Stripped conditional import binding '' @ [CHR 0x27] @ ''devOnly'' @ [CHR 0x27] @
      '' still in output (a.ts)'']"
proof -
  have "checkChunk fixture_host (two_files_chunk (Some ''to a.ts'')) two_files_registry ''/app''
     (Some ''/app/dist'') =
     List.map_filter (reported fixture_host (two_files_chunk (Some ''to a.ts'')) two_files_registry
        ''/app'' (Some ''/app/dist'')) [] @
     (''Stripped conditional import binding '' @ [CHR 0x27] @ name devOnly_ref @ [CHR 0x27] @
      '' still in output ('' @
      (if truthy (Some ''/app/dist'') then relativeToRoot fixture_host ''/app/a.ts'' ''/app''
       else ''/app/a.ts'') @
      '')'') #
     List.map_filter (reported fixture_host (two_files_chunk (Some ''to a.ts'')) two_files_registry
        ''/app'' (Some ''/app/dist'')) []"
    by (rule checkChunk_localized_reference
          [OF findUndefinedRefs_two_files, where ids = "[''/app/b.ts'', ''/app/a.ts'', ''/app/unused.ts'']"
            and m = "''to a.ts''" and l = 1 and col = 1])
       (simp_all add: two_files_registry_def devOnly_ref_def two_files_chunk_def contributing_def
          fixture_host_def)
  then show ?thesis
    by (simp add: devOnly_ref_def relativeToRoot_def fixture_host_def fixture_relative_def
        startsWith_def)
qed

text \<open>
  C5, as amended. The message for an undefined reference whose name the registry knows,
  with an origin among the modules of the chunk, and which no source map localizes, is
  \<open>Stripped conditional import binding '<name>' still in output (<origins>)\<close>, the origins
  being the registry's list for the name restricted to the modules of the chunk, made
  relative to the root when an output directory is known, sorted and joined by commas. An
  id that the registry lists twice is listed twice.
\<close>

theorem checkChunk_unlocalized_reference:
  assumes "findUndefinedRefs h (chunk_code c) = before @ r # after"
    and "map_of reg (name r) = Some ids"
    and "filter (\<lambda>i. i \<in> set (contributing c)) ids \<noteq> []"
    and "localized h c dir r = None"
  shows "checkChunk h c reg rt dir =
           List.map_filter (reported h c reg rt dir) before @
           (''Stripped conditional import binding '' @ [CHR 0x27] @ name r @ [CHR 0x27] @
            '' still in output ('' @
            join '', ''
              (sort (if truthy dir
                     then map (\<lambda>i. relativeToRoot h i rt)
                            (filter (\<lambda>i. i \<in> set (contributing c)) ids)
                     else filter (\<lambda>i. i \<in> set (contributing c)) ids)) @
            '')'') #
           List.map_filter (reported h c reg rt dir) after"
proof -
  have "reported h c reg rt dir r =
      Some (binding_message (name r)
        (sort (if truthy dir
               then map (\<lambda>i. relativeToRoot h i rt) (filter (\<lambda>i. i \<in> set (contributing c)) ids)
               else filter (\<lambda>i. i \<in> set (contributing c)) ids)))"
    using assms(2-4) by (simp add: reported_def restricted_origins_def rendered_def)
  then show ?thesis
    by (simp add: checkChunk_reported assms(1) map_filter_append binding_message_def)
qed

theorem checkChunk_unlocalized_reference_witness:
  "checkChunk fixture_host (two_files_chunk None) two_files_registry ''/app'' (Some ''/app/dist'') =
     [''Stripped conditional import binding '' @ [CHR 0x27] @ ''devOnly'' @ [CHR 0x27] @
      '' still in output (a.ts, b.ts)'']"
proof -
  have loc: "localized fixture_host (two_files_chunk None) (Some ''/app/dist'') devOnly_ref = None"
    by (simp add: localized_def two_files_chunk_def)
  have "sort [''b.ts'', ''a.ts''] = [''a.ts'', ''b.ts'']"
    by simp
  with checkChunk_unlocalized_reference
         [OF findUndefinedRefs_two_files _ _ loc,
          where ids = "[''/app/b.ts'', ''/app/a.ts'', ''/app/unused.ts'']"
            and reg = two_files_registry and rt = "''/app''"]
  show ?thesis
    by (simp add: two_files_registry_def devOnly_ref_def two_files_chunk_def contributing_def
        relativeToRoot_def fixture_host_def fixture_relative_def startsWith_def)
qed

text \<open>
  C5 as stated fails: the origins are not deduplicated. With a registry that lists a file
  twice under a name, the message lists it twice.
\<close>

theorem checkChunk_lists_repeated_origin:
  "checkChunk fixture_host (two_files_chunk None) repeated_registry ''/app'' None =
     [binding_message ''devOnly'' [''/app/a.ts'', ''/app/a.ts'']] \<and>
   checkChunk fixture_host (two_files_chunk None) repeated_registry ''/app'' None \<noteq>
     [binding_message ''devOnly'' (sort (remdups [''/app/a.ts'', ''/app/a.ts'']))]"
proof -
  have "reported fixture_host (two_files_chunk None) repeated_registry ''/app'' None devOnly_ref =
      Some (binding_message ''devOnly'' (sort [''/app/a.ts'', ''/app/a.ts'']))"
    by (simp add: reported_def restricted_origins_def repeated_registry_def devOnly_ref_def
        two_files_chunk_def contributing_def localized_def rendered_def)
  moreover have "sort [''/app/a.ts'', ''/app/a.ts''] = [''/app/a.ts'', ''/app/a.ts'']"
    by simp
  ultimately have "checkChunk fixture_host (two_files_chunk None) repeated_registry ''/app'' None =
     [binding_message ''devOnly'' [''/app/a.ts'', ''/app/a.ts'']]"
    using findUndefinedRefs_two_files [of None] by (simp add: checkChunk_reported)
  then show ?thesis
    by (simp add: binding_message_def)
qed











section \<open>The lazy resolver\<close>

lemma cache_ok_new: "cache_ok new_resolver"
  by (simp add: cache_ok_def new_resolver_def)

lemma resolvedTarget_cached:
  "resolveCache st t = Some p \<Longrightarrow> resolvedTarget h context file_id t st = (p, st)"
  by (simp add: resolvedTarget_def)

lemma resolvedTarget_fresh:
  "resolveCache st t = None \<Longrightarrow>
   resolvedTarget h context file_id t st =
     (\<lparr>made_by_call = length (resolve_calls st), settles_to = resolve_then h context file_id t\<rparr>,
      st\<lparr>resolveCache := (resolveCache st)
             (t \<mapsto> \<lparr>made_by_call = length (resolve_calls st),
                        settles_to = resolve_then h context file_id t\<rparr>),
         resolve_calls := resolve_calls st @ [(t, file_id)]\<rparr>)"
  by (simp add: resolvedTarget_def Let_def)

lemma resolvedTarget_step_all:
  assumes "resolvedTarget h context file_id t st = (p, st')" and "cache_ok st"
  shows "cache_ok st' \<and> resolveCache st' t = Some p \<and>
        resolveCache st \<subseteq>\<^sub>m resolveCache st' \<and>
        set (map fst (resolve_calls st')) = insert t (set (map fst (resolve_calls st)))"
proof (cases "resolveCache st t")
  case None
  then have "t \<notin> dom (resolveCache st)"
    by (simp add: dom_def)
  then have fresh: "t \<notin> set (map fst (resolve_calls st))"
    using assms(2) by (simp add: cache_ok_def)
  from assms(1) have st': "st' = st\<lparr>resolveCache := (resolveCache st)(t \<mapsto> p),
       resolve_calls := resolve_calls st @ [(t, file_id)]\<rparr>"
    by (auto simp: resolvedTarget_fresh [OF None])
  have "resolveCache st \<subseteq>\<^sub>m (resolveCache st)(t \<mapsto> p)"
    using None by (simp add: map_le_def dom_def)
  then show ?thesis
    using fresh assms(2) by (simp add: st' cache_ok_def)
next
  case (Some q)
  with assms(1) have eq: "p = q" "st' = st"
    by (simp_all add: resolvedTarget_cached [OF Some])
  have "t \<in> dom (resolveCache st)"
    using Some by (simp add: dom_def)
  then have "t \<in> set (map fst (resolve_calls st))"
    using assms(2) by (simp add: cache_ok_def)
  then show ?thesis
    using Some assms(2) by (auto simp: eq)
qed

lemma resolvedTarget_step:
  assumes "resolvedTarget h context file_id t st = (p, st')" and "cache_ok st"
  shows "cache_ok st'" and "resolveCache st' t = Some p"
    and "resolveCache st \<subseteq>\<^sub>m resolveCache st'"
    and "set (map fst (resolve_calls st')) = insert t (set (map fst (resolve_calls st)))"
  using resolvedTarget_step_all [OF assms] by simp_all

lemma read_all_invariant:
  assumes "read_all h context file_id reads st = (ps, st')" and "cache_ok st"
  shows "cache_ok st' \<and> length ps = length reads \<and>
         resolveCache st \<subseteq>\<^sub>m resolveCache st' \<and>
         set (map fst (resolve_calls st')) = set (map fst (resolve_calls st)) \<union> set reads \<and>
         (\<forall>i<length reads. resolveCache st' (reads ! i) = Some (ps ! i))"
  using assms
proof (induction reads arbitrary: st ps st')
  case Nil
  then show ?case by simp
next
  case (Cons t reads)
  obtain p st1 where first: "resolvedTarget h context file_id t st = (p, st1)"
    by (cases "resolvedTarget h context file_id t st")
  obtain ps1 st2 where rest: "read_all h context file_id reads st1 = (ps1, st2)"
    by (cases "read_all h context file_id reads st1")
  from Cons.prems(1) first rest have eq: "ps = p # ps1" "st' = st2"
    by simp_all
  note step = resolvedTarget_step [OF first Cons.prems(2)]
  from Cons.IH [OF rest step(1)] have ih:
    "cache_ok st2" "length ps1 = length reads" "resolveCache st1 \<subseteq>\<^sub>m resolveCache st2"
    "set (map fst (resolve_calls st2)) = set (map fst (resolve_calls st1)) \<union> set reads"
    "\<forall>i<length reads. resolveCache st2 (reads ! i) = Some (ps1 ! i)"
    by simp_all
  have kept: "resolveCache st2 t = Some p"
    using step(2) ih(3) by (auto simp: map_le_def dom_def)
  have a: "\<forall>i<length (t # reads). resolveCache st2 ((t # reads) ! i) = Some ((p # ps1) ! i)"
  proof (intro allI impI)
    fix i assume "i < length (t # reads)"
    then show "resolveCache st2 ((t # reads) ! i) = Some ((p # ps1) ! i)"
      using kept ih(5) by (cases i) simp_all
  qed
  have b: "resolveCache st \<subseteq>\<^sub>m resolveCache st2"
    using step(3) ih(3) by (rule map_le_trans)
  have c: "set (map fst (resolve_calls st2)) = set (map fst (resolve_calls st)) \<union> set (t # reads)"
    unfolding ih(4) step(4) by auto
  have d: "length (p # ps1) = length (t # reads)"
    using ih(2) by simp
  from ih(1) d b c a show ?case
    unfolding eq by blast
qed

lemma read_all_memoized:
  assumes "read_all h context file_id reads new_resolver = (ps, st)"
  shows "distinct (map fst (resolve_calls st)) \<and>
         set (map fst (resolve_calls st)) = set reads \<and>
         length ps = length reads \<and>
         (\<forall>i<length reads. \<forall>j<length reads. reads ! i = reads ! j \<longrightarrow> ps ! i = ps ! j)"
proof -
  from read_all_invariant [OF assms cache_ok_new] have inv:
    "cache_ok st" "length ps = length reads"
    "set (map fst (resolve_calls st)) = set (map fst (resolve_calls new_resolver)) \<union> set reads"
    "\<forall>i<length reads. resolveCache st (reads ! i) = Some (ps ! i)"
    by simp_all
  have "\<forall>i<length reads. \<forall>j<length reads. reads ! i = reads ! j \<longrightarrow> ps ! i = ps ! j"
  proof (intro allI impI)
    fix i j assume ij: "i < length reads" "j < length reads" and same: "reads ! i = reads ! j"
    from inv(4) ij(1) have "resolveCache st (reads ! i) = Some (ps ! i)"
      by blast
    moreover from inv(4) ij(2) have "resolveCache st (reads ! j) = Some (ps ! j)"
      by blast
    ultimately show "ps ! i = ps ! j"
      using same by simp
  qed
  moreover have "distinct (map fst (resolve_calls st))"
    using inv(1) by (simp add: cache_ok_def)
  moreover have "set (map fst (resolve_calls st)) = set reads"
    using inv(3) by (simp add: new_resolver_def)
  ultimately show ?thesis
    using inv(2) by blast
qed

lemma run_predicate_cache_ok:
  "cache_ok st \<Longrightarrow>
   cache_ok (snd (run_predicate b (resolvedTarget h context file_id t) st)) \<and>
   set (map fst (resolve_calls (snd (run_predicate b (resolvedTarget h context file_id t) st))))
     \<subseteq> insert t (set (map fst (resolve_calls st)))"
proof (induction b arbitrary: st)
  case (Finish out)
  then show ?case by auto
next
  case (ReadResolvedTarget k)
  obtain p st1 where first: "resolvedTarget h context file_id t st = (p, st1)"
    by (cases "resolvedTarget h context file_id t st")
  note step = resolvedTarget_step [OF first ReadResolvedTarget.prems]
  have run: "run_predicate (ReadResolvedTarget k) (resolvedTarget h context file_id t) st =
      run_predicate (k (settles_to p)) (resolvedTarget h context file_id t) st1"
    by (simp add: first)
  from ReadResolvedTarget.IH [of "k (settles_to p)" st1, OF rangeI step(1)]
  show ?case
    unfolding run step(4) by blast
qed

section \<open>The transform of one file\<close>

lemma scatter_skip:
  "\<not> runtime_import item \<Longrightarrow>
   scatter h file_id shouldStrip context src (item # rest) st =
   scatter h file_id shouldStrip context src rest (st\<lparr>body := body st @ [Item item]\<rparr>)"
  by (cases item) simp_all

lemma scatter_throw:
  assumes "\<not> typeOnly d"
    and "run_predicate (shouldStrip (length (predicate_calls st)) (context_for context src d))
           (resolvedTarget h context file_id (source_value d)) (cache st) = (Throws e, c')"
  shows "scatter h file_id shouldStrip context src (ImportDeclaration d # rest) st =
     (st\<lparr>cache := c',
         predicate_calls := predicate_calls st @ [(context_for context src d, Throws e)]\<rparr>,
      Some e)"
  using assms by (simp add: context_for_def)

lemma scatter_decide:
  assumes "\<not> typeOnly d"
    and "run_predicate (shouldStrip (length (predicate_calls st)) (context_for context src d))
           (resolvedTarget h context file_id (source_value d)) (cache st) = (out, c')"
    and "\<not> throws out"
  shows "scatter h file_id shouldStrip context src (ImportDeclaration d # rest) st =
     scatter h file_id shouldStrip context src rest
       (st\<lparr>cache := c',
           predicate_calls := predicate_calls st @ [(context_for context src d, out)],
           body := body st @ [Decision d out]\<rparr>)"
  using assms by (cases out) (simp_all add: context_for_def)

lemma scatter_cases [consumes 1, case_names Nil Skip Throw Decide]:
  assumes run: "scatter h file_id shouldStrip context src items st = (st', thrown)"
    and Nil: "\<And>st. P [] st st None"
    and Skip: "\<And>item rest st st' thrown.
        \<not> runtime_import item \<Longrightarrow>
        scatter h file_id shouldStrip context src rest (st\<lparr>body := body st @ [Item item]\<rparr>) = (st', thrown) \<Longrightarrow>
        P rest (st\<lparr>body := body st @ [Item item]\<rparr>) st' thrown \<Longrightarrow>
        P (item # rest) st st' thrown"
    and Throw: "\<And>d rest st e c'.
        \<not> typeOnly d \<Longrightarrow>
        run_predicate (shouldStrip (length (predicate_calls st)) (context_for context src d))
           (resolvedTarget h context file_id (source_value d)) (cache st) = (Throws e, c') \<Longrightarrow>
        P (ImportDeclaration d # rest) st
          (st\<lparr>cache := c',
              predicate_calls := predicate_calls st @ [(context_for context src d, Throws e)]\<rparr>)
          (Some e)"
    and Decide: "\<And>d rest st out c' st' thrown.
        \<not> typeOnly d \<Longrightarrow>
        run_predicate (shouldStrip (length (predicate_calls st)) (context_for context src d))
           (resolvedTarget h context file_id (source_value d)) (cache st) = (out, c') \<Longrightarrow>
        \<not> throws out \<Longrightarrow>
        scatter h file_id shouldStrip context src rest
          (st\<lparr>cache := c',
              predicate_calls := predicate_calls st @ [(context_for context src d, out)],
              body := body st @ [Decision d out]\<rparr>) = (st', thrown) \<Longrightarrow>
        P rest
          (st\<lparr>cache := c',
              predicate_calls := predicate_calls st @ [(context_for context src d, out)],
              body := body st @ [Decision d out]\<rparr>) st' thrown \<Longrightarrow>
        P (ImportDeclaration d # rest) st st' thrown"
  shows "P items st st' thrown"
  using run
proof (induction items arbitrary: st st' thrown)
  case Nil
  then show ?case using assms(2) by simp
next
  case (Cons item rest)
  show ?case
  proof (cases "runtime_import item")
    case False
    with Cons.prems have
      "scatter h file_id shouldStrip context src rest (st\<lparr>body := body st @ [Item item]\<rparr>) = (st', thrown)"
      by (simp add: scatter_skip del: scatter.simps)
    with False Cons.IH show ?thesis
      by (blast intro: Skip)
  next
    case True
    then obtain d where d: "item = ImportDeclaration d" "\<not> typeOnly d"
      by (cases item) auto
    obtain out c' where run1:
      "run_predicate (shouldStrip (length (predicate_calls st)) (context_for context src d))
         (resolvedTarget h context file_id (source_value d)) (cache st) = (out, c')"
      by (cases "run_predicate (shouldStrip (length (predicate_calls st)) (context_for context src d))
         (resolvedTarget h context file_id (source_value d)) (cache st)")
    show ?thesis
    proof (cases "throws out")
      case True
      then obtain e where e: "out = Throws e"
        by (cases out) auto
      from Cons.prems scatter_throw [where shouldStrip = shouldStrip and rest = rest, OF d(2) run1 [unfolded e]]
      have "st' = st\<lparr>cache := c',
              predicate_calls := predicate_calls st @ [(context_for context src d, Throws e)]\<rparr>"
        "thrown = Some e"
        unfolding d(1) by simp_all
      then show ?thesis
        unfolding d(1) using Throw [OF d(2) run1 [unfolded e]] by simp
    next
      case False
      from Cons.prems scatter_decide [where shouldStrip = shouldStrip and rest = rest, OF d(2) run1 False]
      have next_run: "scatter h file_id shouldStrip context src rest
          (st\<lparr>cache := c',
              predicate_calls := predicate_calls st @ [(context_for context src d, out)],
              body := body st @ [Decision d out]\<rparr>) = (st', thrown)"
        unfolding d(1) by simp
      from Decide [OF d(2) run1 False next_run Cons.IH [OF next_run]]
      show ?thesis
        unfolding d(1) .
    qed
  qed
qed

lemma set_set_add [simp]: "set (set_add x xs) = insert x (set xs)"
  by (auto simp: set_add_def)

lemma set_fold_set_add:
  "set (fold (\<lambda>s. set_add (f s)) ss acc) = set acc \<union> f ` set ss"
  by (induction ss arbitrary: acc) auto

lemma settle_results:
  "results (settle (i, e) st) =
     (if fulfilled e then (results st)[i := final_value e] else results st)"
  by (cases "((i, e), st)" rule: settle.cases) (auto simp: on_decided_def split: option.splits)

lemma settle_symbols:
  "set (stripped_symbols (settle (i, e) st)) = set (stripped_symbols st) \<union> set (stripped_names e)"
  by (cases "((i, e), st)" rule: settle.cases)
     (auto simp: on_decided_def set_fold_set_add bound_names_def split: option.splits)

lemma settle_rejection:
  "first_rejection (settle (i, e) st) =
     (case first_rejection st of Some e0 \<Rightarrow> Some e0 | None \<Rightarrow> rejection e)"
  by (cases "((i, e), st)" rule: settle.cases)
     (auto simp: on_decided_def split: option.splits)

lemma fold_settle_symbols:
  "set (stripped_symbols (fold settle evs st)) =
     set (stripped_symbols st) \<union> (\<Union>ev\<in>set evs. set (stripped_names (snd ev)))"
proof (induction evs arbitrary: st)
  case Nil
  then show ?case by simp
next
  case (Cons ev evs)
  obtain i e where ev: "ev = (i, e)" by (cases ev)
  show ?case
    by (simp add: Cons.IH ev settle_symbols Un_assoc)
qed

lemma fold_settle_rejection_kept:
  "first_rejection st = Some e0 \<Longrightarrow> first_rejection (fold settle evs st) = Some e0"
proof (induction evs arbitrary: st)
  case Nil
  then show ?case by simp
next
  case (Cons ev evs)
  obtain i e where ev: "ev = (i, e)" by (cases ev)
  from Cons.prems have "first_rejection (settle (i, e) st) = Some e0"
    by (simp add: settle_rejection)
  then show ?case
    by (simp add: ev Cons.IH)
qed

lemma fold_settle_rejection:
  "first_rejection st = None \<Longrightarrow>
   first_rejection (fold settle evs st) =
     (case List.map_filter (\<lambda>ev. rejection (snd ev)) evs of [] \<Rightarrow> None | e # es \<Rightarrow> Some e)"
proof (induction evs arbitrary: st)
  case Nil
  then show ?case by simp
next
  case (Cons ev evs)
  obtain i e where ev: "ev = (i, e)" by (cases ev)
  show ?case
  proof (cases "rejection e")
    case None
    with Cons.prems have "first_rejection (settle (i, e) st) = None"
      by (simp add: settle_rejection)
    from Cons.IH [OF this] None show ?thesis
      by (simp add: ev)
  next
    case (Some err)
    with Cons.prems have "first_rejection (settle (i, e) st) = Some err"
      by (simp add: settle_rejection)
    from fold_settle_rejection_kept [OF this] Some show ?thesis
      by (simp add: ev)
  qed
qed

lemma length_fold_settle_results:
  "length (results (fold settle evs st)) = length (results st)"
proof (induction evs arbitrary: st)
  case Nil
  then show ?case by simp
next
  case (Cons ev evs)
  obtain i e where ev: "ev = (i, e)" by (cases ev)
  show ?case
    by (simp add: Cons.IH ev settle_results)
qed

lemma fold_settle_results_nth:
  assumes "\<forall>ev\<in>set evs. fst ev < length es \<and> es ! fst ev = snd ev"
    and "length (results st) = length es" and "j < length es"
  shows "results (fold settle evs st) ! j =
     (if fulfilled (es ! j) \<and> (j, es ! j) \<in> set evs then final_value (es ! j)
      else results st ! j)"
  using assms
proof (induction evs arbitrary: st)
  case Nil
  then show ?case by simp
next
  case (Cons ev evs)
  obtain i e where ev: "ev = (i, e)" by (cases ev)
  from Cons.prems(1) have ie: "i < length es" "es ! i = e"
    by (simp_all add: ev)
  have len: "length (results (settle (i, e) st)) = length es"
    using Cons.prems(2) by (simp add: settle_results)
  have rest: "\<forall>ev\<in>set evs. fst ev < length es \<and> es ! fst ev = snd ev"
    using Cons.prems(1) by simp
  have step: "results (settle (i, e) st) ! j =
      (if fulfilled e \<and> i = j then final_value e else results st ! j)"
    using Cons.prems(2,3) ie by (auto simp: settle_results)
  from Cons.IH [OF rest len Cons.prems(3)] step ie show ?case
    by (auto simp: ev)
qed

lemma set_completion_order:
  "set (completion_order es) = {(i, e). i < length es \<and> es ! i = e \<and> settles e}"
  by (auto simp: completion_order_def in_set_enumerate_eq)

lemma fulfilled_settles: "fulfilled e \<Longrightarrow> settles e"
  by (cases e rule: fulfilled.cases) simp_all

lemma unfulfilled_final_value: "\<not> fulfilled e \<Longrightarrow> final_value e = initial_value e"
  by (cases e rule: fulfilled.cases) simp_all

lemma gathered_results:
  "results (fold settle (completion_order es) (new_gather es)) = map final_value es"
proof (rule nth_equalityI)
  show "length (results (fold settle (completion_order es) (new_gather es))) = length (map final_value es)"
    by (simp add: length_fold_settle_results new_gather_def)
next
  fix j assume "j < length (results (fold settle (completion_order es) (new_gather es)))"
  then have j: "j < length es"
    by (simp add: length_fold_settle_results new_gather_def)
  have events: "\<forall>ev\<in>set (completion_order es). fst ev < length es \<and> es ! fst ev = snd ev"
    by (auto simp: set_completion_order)
  have len: "length (results (new_gather es)) = length es"
    by (simp add: new_gather_def)
  have "results (fold settle (completion_order es) (new_gather es)) ! j = final_value (es ! j)"
    unfolding fold_settle_results_nth [OF events len j]
    using j by (auto simp: set_completion_order fulfilled_settles unfulfilled_final_value new_gather_def)
  then show "results (fold settle (completion_order es) (new_gather es)) ! j = map final_value es ! j"
    using j by simp
qed

lemma rejection_settles: "rejection e = Some err \<Longrightarrow> settles e"
  by (cases e rule: rejection.cases) simp_all

lemma names_settles: "stripped_names e \<noteq> [] \<Longrightarrow> settles e"
  by (cases e rule: fulfilled.cases) simp_all

lemma gathered_symbols:
  "set (stripped_symbols (fold settle (completion_order es) (new_gather es))) =
     (\<Union>e\<in>set es. set (stripped_names e))"
proof -
  have "(\<Union>ev\<in>set (completion_order es). set (stripped_names (snd ev))) =
        (\<Union>e\<in>set es. set (stripped_names e))"
  proof (intro equalityI subsetI)
    fix x assume "x \<in> (\<Union>ev\<in>set (completion_order es). set (stripped_names (snd ev)))"
    then obtain i e where "(i, e) \<in> set (completion_order es)" "x \<in> set (stripped_names e)"
      by auto
    then have "e \<in> set es" "x \<in> set (stripped_names e)"
      by (auto simp: set_completion_order)
    then show "x \<in> (\<Union>e\<in>set es. set (stripped_names e))"
      by blast
  next
    fix x assume "x \<in> (\<Union>e\<in>set es. set (stripped_names e))"
    then obtain e where e: "e \<in> set es" "x \<in> set (stripped_names e)"
      by auto
    then obtain i where i: "i < length es" "es ! i = e"
      by (auto simp: in_set_conv_nth)
    from e(2) have "settles e"
      by (intro names_settles) auto
    with i have "(i, e) \<in> set (completion_order es)"
      by (simp add: set_completion_order)
    with e(2) show "x \<in> (\<Union>ev\<in>set (completion_order es). set (stripped_names (snd ev)))"
      by force
  qed
  then show ?thesis
    by (simp add: fold_settle_symbols new_gather_def)
qed

lemma runtime_imports_skip [simp]:
  "\<not> runtime_import item \<Longrightarrow> runtime_imports (item # rest) = runtime_imports rest"
  by (cases item) simp_all

lemma scatter_shape:
  assumes "scatter h file_id shouldStrip context src items st = (st', thrown)"
  shows "\<exists>log. predicate_calls st' = predicate_calls st @ log \<and>
           map fst log = take (length log) (map (context_for context src) (runtime_imports items)) \<and>
           (\<forall>e. thrown = Some e \<longrightarrow> log \<noteq> [] \<and> snd (last log) = Throws e) \<and>
           (thrown = None \<longrightarrow>
              (\<exists>es. body st' = body st @ es \<and> map entry_item es = items \<and>
                    list_all loop_entry es \<and> map snd (decisions es) = map snd log))"
  using assms
proof (induction rule: scatter_cases)
  case (Nil st)
  show ?case by simp
next
  case (Skip item rest st st' thrown)
  from Skip.IH obtain log where log:
    "predicate_calls st' = predicate_calls st @ log"
    "map fst log = take (length log) (map (context_for context src) (runtime_imports rest))"
    "\<forall>e. thrown = Some e \<longrightarrow> log \<noteq> [] \<and> snd (last log) = Throws e"
    "thrown = None \<longrightarrow>
       (\<exists>es. body st' = (body st @ [Item item]) @ es \<and> map entry_item es = rest \<and>
             list_all loop_entry es \<and> map snd (decisions es) = map snd log)"
    by auto
  have "thrown = None \<longrightarrow>
       (\<exists>es. body st' = body st @ es \<and> map entry_item es = item # rest \<and>
             list_all loop_entry es \<and> map snd (decisions es) = map snd log)"
  proof
    assume "thrown = None"
    with log(4) obtain es where es: "body st' = (body st @ [Item item]) @ es"
      "map entry_item es = rest" "list_all loop_entry es" "map snd (decisions es) = map snd log"
      by auto
    have "body st' = body st @ (Item item # es) \<and> map entry_item (Item item # es) = item # rest \<and>
          list_all loop_entry (Item item # es) \<and> map snd (decisions (Item item # es)) = map snd log"
      using es Skip.hyps(1) by simp
    then show "\<exists>es. body st' = body st @ es \<and> map entry_item es = item # rest \<and>
             list_all loop_entry es \<and> map snd (decisions es) = map snd log"
      by (rule exI)
  qed
  with log(1,2,3) Skip.hyps(1) show ?case
    by (intro exI [of _ log]) simp
next
  case (Throw d rest st e c')
  show ?case
    by (intro exI [of _ "[(context_for context src d, Throws e)]"]) (simp add: Throw.hyps(1))
next
  case (Decide d rest st out c' st' thrown)
  let ?ctx = "context_for context src d"
  from Decide.IH obtain log where log:
    "predicate_calls st' = (predicate_calls st @ [(?ctx, out)]) @ log"
    "map fst log = take (length log) (map (context_for context src) (runtime_imports rest))"
    "\<forall>e. thrown = Some e \<longrightarrow> log \<noteq> [] \<and> snd (last log) = Throws e"
    "thrown = None \<longrightarrow>
       (\<exists>es. body st' = (body st @ [Decision d out]) @ es \<and> map entry_item es = rest \<and>
             list_all loop_entry es \<and> map snd (decisions es) = map snd log)"
    by auto
  have "thrown = None \<longrightarrow>
       (\<exists>es. body st' = body st @ es \<and> map entry_item es = ImportDeclaration d # rest \<and>
             list_all loop_entry es \<and> map snd (decisions es) = map snd ((?ctx, out) # log))"
  proof
    assume "thrown = None"
    with log(4) obtain es where es: "body st' = (body st @ [Decision d out]) @ es"
      "map entry_item es = rest" "list_all loop_entry es" "map snd (decisions es) = map snd log"
      by auto
    have "body st' = body st @ (Decision d out # es) \<and>
          map entry_item (Decision d out # es) = ImportDeclaration d # rest \<and>
          list_all loop_entry (Decision d out # es) \<and>
          map snd (decisions (Decision d out # es)) = map snd ((?ctx, out) # log)"
      using es Decide.hyps(1,3) by simp
    then show "\<exists>es. body st' = body st @ es \<and> map entry_item es = ImportDeclaration d # rest \<and>
             list_all loop_entry es \<and> map snd (decisions es) = map snd ((?ctx, out) # log)"
      by (rule exI)
  qed
  moreover have "\<forall>e. thrown = Some e \<longrightarrow>
      (?ctx, out) # log \<noteq> [] \<and> snd (last ((?ctx, out) # log)) = Throws e"
    using log(3) by auto
  ultimately show ?case
    using log(1,2) Decide.hyps(1)
    by (intro exI [of _ "(?ctx, out) # log"]) simp
qed

lemma loop_ok_body [simp]: "loop_ok (st\<lparr>body := b\<rparr>) = loop_ok st"
  by (simp add: loop_ok_def)

lemma run_predicate_loop_ok:
  assumes "loop_ok st"
    and "run_predicate b (resolvedTarget h context file_id (source_value d)) (cache st) = (out, c')"
  shows "loop_ok (st\<lparr>cache := c',
            predicate_calls := predicate_calls st @ [(context_for context src d, out)]\<rparr>)"
proof -
  from assms(1) have ok: "cache_ok (cache st)"
    and sub: "set (map fst (resolve_calls (cache st))) \<subseteq>
              set (map (\<lambda>c. target (fst c)) (predicate_calls st))"
    by (simp_all add: loop_ok_def)
  from run_predicate_cache_ok [OF ok, of b h "context" file_id "source_value d"] assms(2)
  have c': "cache_ok c'"
    "set (map fst (resolve_calls c')) \<subseteq> insert (source_value d) (set (map fst (resolve_calls (cache st))))"
    by simp_all
  have "target (context_for context src d) = source_value d"
    by (simp add: context_for_def)
  with c'(2) sub have "set (map fst (resolve_calls c')) \<subseteq>
      set (map (\<lambda>c. target (fst c)) (predicate_calls st @ [(context_for context src d, out)]))"
    by auto
  with c'(1) show ?thesis
    by (simp add: loop_ok_def)
qed

lemma scatter_loop_ok:
  assumes "scatter h file_id shouldStrip context src items st = (st', thrown)"
  shows "loop_ok st \<longrightarrow> loop_ok st'"
  using assms
proof (induction rule: scatter_cases)
  case (Nil st)
  show ?case by simp
next
  case (Skip item rest st st' thrown)
  then show ?case by simp
next
  case (Throw d rest st e c')
  show ?case
    using run_predicate_loop_ok [OF _ Throw.hyps(2)] by blast
next
  case (Decide d rest st out c' st' thrown)
  show ?case
    using run_predicate_loop_ok [OF _ Decide.hyps(2)] Decide.IH by simp
qed

lemma set_map_filter: "set (List.map_filter f xs) = {y. \<exists>x\<in>set xs. f x = Some y}"
  by (induction xs) (auto simp: List.map_filter_simps split: option.splits)

lemma completion_order_entry:
  assumes "ev \<in> set (completion_order es)"
  shows "snd ev \<in> set es"
proof -
  obtain i e where ev: "ev = (i, e)" by (cases ev)
  with assms have "i < length es" "es ! i = e"
    by (simp_all add: set_completion_order)
  then show ?thesis
    using ev nth_mem by fastforce
qed

lemma promise_all_rejected:
  assumes "e \<in> set es" and "rejection e = Some err"
  shows "\<exists>err'. promise_all es = Rejected err' \<and> (\<exists>e'\<in>set es. rejection e' = Some err')"
proof -
  let ?L = "List.map_filter (\<lambda>ev. rejection (snd ev)) (completion_order es)"
  from assms(1) obtain i where "i < length es" "es ! i = e"
    by (auto simp: in_set_conv_nth)
  with assms(2) have "(i, e) \<in> set (completion_order es)"
    by (simp add: set_completion_order rejection_settles)
  with assms(2) have "err \<in> set ?L"
    by (force simp: set_map_filter)
  then obtain err' rest where L: "?L = err' # rest"
    by (cases ?L) auto
  then have "err' \<in> set ?L"
    by simp
  then obtain ev where "ev \<in> set (completion_order es)" "rejection (snd ev) = Some err'"
    by (auto simp: set_map_filter)
  then have from_es: "\<exists>e'\<in>set es. rejection e' = Some err'"
    using completion_order_entry by blast
  have "first_rejection (fold settle (completion_order es) (new_gather es)) = Some err'"
    using fold_settle_rejection [of "new_gather es" "completion_order es"] L
    by (simp add: new_gather_def)
  then have "promise_all es = Rejected err'"
    by (simp add: promise_all_def Let_def)
  with from_es show ?thesis
    by blast
qed

lemma promise_all_unrejected:
  assumes "\<forall>e\<in>set es. rejection e = None"
  shows "promise_all es =
     (if list_ex never_settles es then Forever
      else Resolved (fold settle (completion_order es) (new_gather es)))"
proof -
  have "List.map_filter (\<lambda>ev. rejection (snd ev)) (completion_order es) = []"
  proof (rule ccontr)
    assume "List.map_filter (\<lambda>ev. rejection (snd ev)) (completion_order es) \<noteq> []"
    then obtain x where "x \<in> set (List.map_filter (\<lambda>ev. rejection (snd ev)) (completion_order es))"
      by (cases "List.map_filter (\<lambda>ev. rejection (snd ev)) (completion_order es)") auto
    then obtain ev where "ev \<in> set (completion_order es)" "rejection (snd ev) = Some x"
      by (auto simp: set_map_filter)
    then have "snd ev \<in> set es" "rejection (snd ev) = Some x"
      using completion_order_entry by blast+
    with assms show False by auto
  qed
  then have "first_rejection (fold settle (completion_order es) (new_gather es)) = None"
    using fold_settle_rejection [of "new_gather es" "completion_order es"]
    by (simp add: new_gather_def)
  then show ?thesis
    by (simp add: promise_all_def Let_def)
qed

lemma final_values_retain:
  assumes "list_all loop_entry es" and "\<forall>e\<in>set es. rejection e = None"
    and "\<not> list_ex never_settles es"
  shows "List.map_filter (\<lambda>r. r) (map final_value es) =
         retain (map entry_item es) (map snd (decisions es))"
  using assms
proof (induction es)
  case Nil
  then show ?case by simp
next
  case (Cons e es)
  then have ih: "List.map_filter (\<lambda>r. r) (map final_value es) =
         retain (map entry_item es) (map snd (decisions es))"
    by simp
  show ?case
  proof (cases e)
    case (Item it)
    with Cons.prems(1) ih show ?thesis by simp
  next
    case (Decision d out)
    with Cons.prems show ?thesis
      using ih by (cases out) simp_all
  qed
qed

lemma subseq_retain: "subseq (retain items outs) items"
  by (induction items outs rule: retain.induct) (auto split: list.splits)

lemma retain_keeps_others:
  "filter (\<lambda>it. \<not> runtime_import it) (retain items outs) = filter (\<lambda>it. \<not> runtime_import it) items"
  by (induction items outs rule: retain.induct) (auto split: list.splits)

lemma transform_parsed:
  assumes "parse h source_text (endsWith ''.tsx'' file_id) = Inr items"
    and "scatter h file_id shouldStrip context
           (relativeToRoot h file_id (root (context_config context))) items new_loop = (st, thrown)"
  shows "transform h source_text file_id shouldStrip context =
     (case thrown of
        Some e \<Rightarrow>
          (\<lparr>parse_calls = [(source_text, endsWith ''.tsx'' file_id)], invoked = predicate_calls st,
            resolutions = resolve_calls (cache st), print_calls = []\<rparr>, Rejected e)
      | None \<Rightarrow>
          (case promise_all (body st) of
             Rejected e \<Rightarrow>
               (\<lparr>parse_calls = [(source_text, endsWith ''.tsx'' file_id)], invoked = predicate_calls st,
                 resolutions = resolve_calls (cache st), print_calls = []\<rparr>, Rejected e)
           | Forever \<Rightarrow>
               (\<lparr>parse_calls = [(source_text, endsWith ''.tsx'' file_id)], invoked = predicate_calls st,
                 resolutions = resolve_calls (cache st), print_calls = []\<rparr>, Forever)
           | Resolved g \<Rightarrow>
               if stripped_symbols g = []
               then (\<lparr>parse_calls = [(source_text, endsWith ''.tsx'' file_id)], invoked = predicate_calls st,
                      resolutions = resolve_calls (cache st), print_calls = []\<rparr>, Resolved None)
               else
                 (\<lparr>parse_calls = [(source_text, endsWith ''.tsx'' file_id)], invoked = predicate_calls st,
                   resolutions = resolve_calls (cache st),
                   print_calls = [(List.map_filter (\<lambda>r. r) (results g),
                                   relativeToRoot h file_id (root (context_config context)))]\<rparr>,
                  Resolved (Some
                    \<lparr>code = fst (print h (List.map_filter (\<lambda>r. r) (results g))
                                   (relativeToRoot h file_id (root (context_config context)))),
                     source_map = snd (print h (List.map_filter (\<lambda>r. r) (results g))
                                   (relativeToRoot h file_id (root (context_config context)))),
                     strippedImportTargets = stripped_targets g,
                     strippedImportSymbols = stripped_symbols g,
                     relativeSource = relativeToRoot h file_id (root (context_config context))\<rparr>))))"
  using assms
  by (simp add: transform_def Let_def split_beta split: option.splits awaited.splits)

lemma transform_unparsed:
  assumes "parse h source_text (endsWith ''.tsx'' file_id) = Inl e"
  shows "transform h source_text file_id shouldStrip context =
     (no_effects\<lparr>parse_calls := [(source_text, endsWith ''.tsx'' file_id)]\<rparr>, Rejected e)"
  using assms by (simp add: transform_def Let_def)

lemma decisions_runtime_imports:
  "list_all loop_entry es \<Longrightarrow> map fst (decisions es) = runtime_imports (map entry_item es)"
proof (induction es)
  case Nil
  then show ?case by simp
next
  case (Cons e es)
  then show ?case by (cases e) auto
qed

lemma decisions_member:
  "(d, out) \<in> set (decisions es) \<longleftrightarrow> Decision d out \<in> set es"
proof (induction es)
  case Nil
  then show ?case by simp
next
  case (Cons e es)
  then show ?case by (cases e) auto
qed

lemma promise_all_resolved:
  assumes "promise_all es = Resolved g"
  shows "(\<forall>e\<in>set es. rejection e = None) \<and> \<not> list_ex never_settles es \<and>
         results g = map final_value es \<and>
         set (stripped_symbols g) = (\<Union>e\<in>set es. set (stripped_names e))"
proof -
  have none: "\<forall>e\<in>set es. rejection e = None"
  proof (rule ccontr)
    assume "\<not> (\<forall>e\<in>set es. rejection e = None)"
    then obtain e err where "e \<in> set es" "rejection e = Some err"
      by auto
    from promise_all_rejected [OF this] assms show False
      by auto
  qed
  from promise_all_unrejected [OF none] assms
  have "\<not> list_ex never_settles es" "g = fold settle (completion_order es) (new_gather es)"
    by (auto split: if_splits)
  with none show ?thesis
    by (simp add: gathered_results gathered_symbols)
qed

lemma stripped_names_bound:
  assumes "list_all loop_entry es"
  shows "(\<Union>e\<in>set es. set (stripped_names e)) \<subseteq>
         (\<Union>d\<in>set (runtime_imports (map entry_item es)). set (bound_names d))"
proof
  fix x assume "x \<in> (\<Union>e\<in>set es. set (stripped_names e))"
  then obtain e where e: "e \<in> set es" "x \<in> set (stripped_names e)"
    by auto
  from e(2) obtain d out where d: "e = Decision d out" "x \<in> set (bound_names d)"
    by (cases e) (auto split: if_splits)
  with e(1) have "(d, out) \<in> set (decisions es)"
    by (simp add: decisions_member)
  then have "d \<in> set (map fst (decisions es))"
    by force
  then have "d \<in> set (runtime_imports (map entry_item es))"
    by (simp add: decisions_runtime_imports [OF assms])
  with d(2) show "x \<in> (\<Union>d\<in>set (runtime_imports (map entry_item es)). set (bound_names d))"
    by blast
qed

text \<open>What a transform that parsed and rewrote its file has done.\<close>

lemma transform_rewrote:
  assumes "parse h source_text (endsWith ''.tsx'' file_id) = Inr items"
    and "transform h source_text file_id shouldStrip context = (fx, Resolved (Some r))"
  shows "\<exists>es. map entry_item es = items \<and> list_all loop_entry es \<and>
           map snd (decisions es) = map snd (invoked fx) \<and>
           (\<forall>e\<in>set es. rejection e = None) \<and> \<not> list_ex never_settles es \<and>
           print_calls fx = [(List.map_filter (\<lambda>r. r) (map final_value es), relativeSource r)] \<and>
           (code r, source_map r) =
              print h (List.map_filter (\<lambda>r. r) (map final_value es)) (relativeSource r) \<and>
           relativeSource r = relativeToRoot h file_id (root (context_config context)) \<and>
           set (strippedImportSymbols r) = (\<Union>e\<in>set es. set (stripped_names e)) \<and>
           strippedImportSymbols r \<noteq> []"
proof -
  let ?src = "relativeToRoot h file_id (root (context_config context))"
  obtain st thrown where run: "scatter h file_id shouldStrip context ?src items new_loop = (st, thrown)"
    by (cases "scatter h file_id shouldStrip context ?src items new_loop")
  note tr = transform_parsed [OF assms(1) run]
  from tr assms(2) have thrown: "thrown = None"
    by (cases thrown) auto
  from tr assms(2) thrown obtain g where g: "promise_all (body st) = Resolved g"
    by (cases "promise_all (body st)") auto
  from tr assms(2) thrown g have fx: "invoked fx = predicate_calls st"
    "stripped_symbols g \<noteq> []"
    "print_calls fx = [(List.map_filter (\<lambda>r. r) (results g), ?src)]"
    "code r = fst (print h (List.map_filter (\<lambda>r. r) (results g)) ?src)"
    "source_map r = snd (print h (List.map_filter (\<lambda>r. r) (results g)) ?src)"
    "relativeSource r = ?src" "strippedImportSymbols r = stripped_symbols g"
    by (auto split: if_splits)
  from scatter_shape [OF run] thrown obtain es where es:
    "body st = es" "map entry_item es = items" "list_all loop_entry es"
    "map snd (decisions es) = map snd (predicate_calls st)"
    by (auto simp: new_loop_def)
  from promise_all_resolved [OF g] es(1) have g':
    "\<forall>e\<in>set es. rejection e = None" "\<not> list_ex never_settles es"
    "results g = map final_value es"
    "set (stripped_symbols g) = (\<Union>e\<in>set es. set (stripped_names e))"
    by simp_all
  show ?thesis
    using es(2,3,4) g' fx by (intro exI [of _ es]) (simp add: prod_eq_iff)
qed

lemma transform_invoked:
  assumes "parse h source_text (endsWith ''.tsx'' file_id) = Inr items"
    and "transform h source_text file_id shouldStrip context = (fx, res)"
  shows "map fst (invoked fx) =
           take (length (invoked fx))
             (map (context_for context (relativeToRoot h file_id (root (context_config context))))
                (runtime_imports items))"
proof -
  let ?src = "relativeToRoot h file_id (root (context_config context))"
  obtain st thrown where run: "scatter h file_id shouldStrip context ?src items new_loop = (st, thrown)"
    by (cases "scatter h file_id shouldStrip context ?src items new_loop")
  from transform_parsed [OF assms(1) run] assms(2) have "invoked fx = predicate_calls st"
    by (auto split: option.splits awaited.splits if_splits)
  with scatter_shape [OF run] show ?thesis
    by (auto simp: new_loop_def)
qed

lemmas transform_eval =
  transform_def host_parsing_def fixture_host_def fixture_context_def fixture_config_def
  fixture_env_def endsWith_def startsWith_def relativeToRoot_def fixture_relative_def
  new_loop_def new_resolver_def strip_dev_only_def import_of_def only_dev_def
  getImportAttributes_def getAttrList_def getWithObject_def getKey_def getVal_def assign_def
  promise_all_def completion_order_def new_gather_def on_decided_def set_add_def
  List.map_filter_def no_effects_def Let_def

lemma map_set_keys: "fst ` set (map_set k v m) = insert k (fst ` set m)"
proof (induction m)
  case Nil
  then show ?case by simp
next
  case (Cons p m)
  obtain k' v' where p: "p = (k', v')" by (cases p)
  show ?case
    by (cases "k' = k") (simp_all add: p Cons.IH insert_commute)
qed

lemma record_origins_keys:
  "fst ` set (record_origins file_id names reg) = fst ` set reg \<union> set names"
  by (induction names arbitrary: reg) (auto simp: map_set_keys Let_def)

lemma plugin_transform_registry_keys:
  assumes "parse h source_text (endsWith ''.tsx'' file_id) = Inr items"
  shows "fst ` set (importSymbolsToSource (state_after (plugin_transform h shouldStrip source_text file_id st)))
         \<subseteq> fst ` set (importSymbolsToSource st) \<union>
           (\<Union>d\<in>set (runtime_imports items). set (bound_names d))"
proof (cases "cachedConfig st")
  case None
  then show ?thesis by (simp add: plugin_transform_def)
next
  case c: (Some c)
  show ?thesis
  proof (cases "cachedEnv st")
    case None
    then show ?thesis by (simp add: plugin_transform_def c)
  next
    case e: (Some e)
    let ?tc = "\<lparr>resolve = this_resolve h, context_config = c, context_env = e\<rparr>"
    show ?thesis
    proof (cases "script_id file_id")
      case False
      then show ?thesis by (simp add: plugin_transform_def c e)
    next
      case True
      obtain fx res where tr: "transform h source_text file_id shouldStrip ?tc = (fx, res)"
        by (cases "transform h source_text file_id shouldStrip ?tc")
      show ?thesis
      proof (cases "\<exists>r. res = Resolved (Some r)")
        case False
        then have "state_after (plugin_transform h shouldStrip source_text file_id st) = st"
          using tr True by (cases res) (auto simp: plugin_transform_def c e split: option.splits)
        then show ?thesis by auto
      next
        case True
        then obtain r where r: "res = Resolved (Some r)" by blast
        from transform_rewrote [OF assms tr [unfolded r]] obtain es where es:
          "map entry_item es = items" "list_all loop_entry es"
          "set (strippedImportSymbols r) = (\<Union>e\<in>set es. set (stripped_names e))"
          by blast
        from stripped_names_bound [OF es(2)] es(1,3)
        have "set (strippedImportSymbols r) \<subseteq> (\<Union>d\<in>set (runtime_imports items). set (bound_names d))"
          by simp
        moreover have "importSymbolsToSource (state_after (plugin_transform h shouldStrip source_text file_id st)) =
            record_origins file_id (strippedImportSymbols r) (importSymbolsToSource st)"
          using tr r \<open>script_id file_id\<close> by (simp add: plugin_transform_def c e)
        ultimately show ?thesis
          by (auto simp: record_origins_keys)
      qed
    qed
  qed
qed

text \<open>
  C7. Of the statements of a file, only the import declarations that are not type-only
  reach the predicate: the contexts passed to it are theirs, in the order of the source
  (all of them, or those up to an invocation that throws). When the file is rewritten,
  the statements that are not such imports, the type-only imports among them, stand in
  the rewritten body as they are and in their order, and every name the transform
  reports as stripped is bound by an import that is not type-only. So are the names that
  the hook adds to the Origin Registry.
\<close>

theorem type_only_imports_are_left_alone:
  assumes "parse h source_text (endsWith ''.tsx'' file_id) = Inr items"
    and "transform h source_text file_id shouldStrip context = (fx, res)"
  shows "map fst (invoked fx) =
           take (length (invoked fx))
             (map (context_for context (relativeToRoot h file_id (root (context_config context))))
                (runtime_imports items)) \<and>
         (\<forall>r. res = Resolved (Some r) \<longrightarrow>
            (\<exists>b. print_calls fx = [(b, relativeSource r)] \<and>
                 filter (\<lambda>it. \<not> runtime_import it) b = filter (\<lambda>it. \<not> runtime_import it) items \<and>
                 set (strippedImportSymbols r) \<subseteq>
                   (\<Union>d\<in>set (runtime_imports items). set (bound_names d)))) \<and>
         fst ` set (importSymbolsToSource
                     (state_after (plugin_transform h shouldStrip source_text file_id st)))
           \<subseteq> fst ` set (importSymbolsToSource st) \<union>
              (\<Union>d\<in>set (runtime_imports items). set (bound_names d))"
proof (intro conjI allI impI)
  show "map fst (invoked fx) =
           take (length (invoked fx))
             (map (context_for context (relativeToRoot h file_id (root (context_config context))))
                (runtime_imports items))"
    by (rule transform_invoked [OF assms])
next
  fix r assume r: "res = Resolved (Some r)"
  from transform_rewrote [OF assms(1) assms(2) [unfolded r]] obtain es where es:
    "map entry_item es = items" "list_all loop_entry es"
    "\<forall>e\<in>set es. rejection e = None" "\<not> list_ex never_settles es"
    "print_calls fx = [(List.map_filter (\<lambda>r. r) (map final_value es), relativeSource r)]"
    "set (strippedImportSymbols r) = (\<Union>e\<in>set es. set (stripped_names e))"
    by blast
  let ?b = "List.map_filter (\<lambda>r. r) (map final_value es)"
  have b: "?b = retain items (map snd (decisions es))"
    using final_values_retain [OF es(2,3,4)] es(1) by simp
  have "filter (\<lambda>it. \<not> runtime_import it) ?b = filter (\<lambda>it. \<not> runtime_import it) items"
    unfolding b by (rule retain_keeps_others)
  moreover have "set (strippedImportSymbols r) \<subseteq>
      (\<Union>d\<in>set (runtime_imports items). set (bound_names d))"
    using stripped_names_bound [OF es(2)] es(1,6) by simp
  ultimately show "\<exists>b. print_calls fx = [(b, relativeSource r)] \<and>
      filter (\<lambda>it. \<not> runtime_import it) b = filter (\<lambda>it. \<not> runtime_import it) items \<and>
      set (strippedImportSymbols r) \<subseteq> (\<Union>d\<in>set (runtime_imports items). set (bound_names d))"
    using es(5) by blast
next
  show "fst ` set (importSymbolsToSource
                     (state_after (plugin_transform h shouldStrip source_text file_id st)))
           \<subseteq> fst ` set (importSymbolsToSource st) \<union>
              (\<Union>d\<in>set (runtime_imports items). set (bound_names d))"
    by (rule plugin_transform_registry_keys [OF assms(1)])
qed

theorem type_only_imports_are_left_alone_witness:
  "map (\<lambda>c. target (fst c))
     (invoked (fst (transform (host_parsing ''src'' type_only_file) ''src'' ''/app/index.ts''
        strip_dev_only fixture_context))) = [''./devOnly''] \<and>
   map (\<lambda>c. withObject (fst c) ''only'')
     (invoked (fst (transform (host_parsing ''src'' type_only_file) ''src'' ''/app/index.ts''
        strip_dev_only fixture_context))) = [Some (JString ''dev'')] \<and>
   print_calls (fst (transform (host_parsing ''src'' type_only_file) ''src'' ''/app/index.ts''
        strip_dev_only fixture_context)) =
     [([ImportDeclaration ((import_of ''./devOnly'' [ImportSpecifier ''DevType''] None)\<lparr>typeOnly := True\<rparr>),
        Statement ''console.log(x)''], ''index.ts'')] \<and>
   importSymbolsToSource (state_after (plugin_transform (host_parsing ''src'' type_only_file)
        strip_dev_only ''src'' ''/app/index.ts'' ready_plugin)) = [(''devValue'', [''/app/index.ts''])]"
proof -
  have parsed: "parse (host_parsing ''src'' type_only_file) ''src'' (endsWith ''.tsx'' ''/app/index.ts'') =
      Inr type_only_file"
    by (simp add: host_parsing_def)
  obtain fx res where run: "transform (host_parsing ''src'' type_only_file) ''src'' ''/app/index.ts''
        strip_dev_only fixture_context = (fx, res)"
    by (cases "transform (host_parsing ''src'' type_only_file) ''src'' ''/app/index.ts''
        strip_dev_only fixture_context")
  note type_only_imports_are_left_alone [OF parsed run, of ready_plugin]
  then show ?thesis
    by (simp add: transform_eval type_only_file_def plugin_transform_def ready_plugin_def
        new_plugin_def script_id_def)
qed

lemma loop_ok_new: "loop_ok new_loop"
  by (simp add: loop_ok_def new_loop_def cache_ok_new) (simp add: new_resolver_def)

lemma transform_effects:
  assumes "parse h source_text (endsWith ''.tsx'' file_id) = Inr items"
    and "scatter h file_id shouldStrip context
           (relativeToRoot h file_id (root (context_config context))) items new_loop = (st, thrown)"
  shows "invoked (fst (transform h source_text file_id shouldStrip context)) = predicate_calls st"
    and "resolutions (fst (transform h source_text file_id shouldStrip context)) = resolve_calls (cache st)"
  unfolding transform_parsed [OF assms]
  by (auto split: option.splits awaited.splits)

lemma transform_resolutions:
  "distinct (map fst (resolutions (fst (transform h source_text file_id shouldStrip context)))) \<and>
   set (map fst (resolutions (fst (transform h source_text file_id shouldStrip context))))
     \<subseteq> set (map (\<lambda>c. target (fst c))
            (invoked (fst (transform h source_text file_id shouldStrip context))))"
proof (cases "parse h source_text (endsWith ''.tsx'' file_id)")
  case (Inl e)
  then show ?thesis
    by (simp add: transform_unparsed no_effects_def)
next
  case (Inr items)
  let ?src = "relativeToRoot h file_id (root (context_config context))"
  obtain st thrown where run: "scatter h file_id shouldStrip context ?src items new_loop = (st, thrown)"
    by (cases "scatter h file_id shouldStrip context ?src items new_loop")
  from scatter_loop_ok [OF run] loop_ok_new have "loop_ok st"
    by simp
  then show ?thesis
    unfolding transform_effects [OF Inr run] by (simp add: loop_ok_def cache_ok_def)
qed

lemma scatter_never_reading:
  assumes "scatter h file_id shouldStrip context src items st = (st', thrown)"
  shows "(\<forall>n ctx. \<exists>out. shouldStrip n ctx = Finish out) \<longrightarrow> cache st' = cache st"
  using assms
proof (induction rule: scatter_cases)
  case (Nil st)
  show ?case by simp
next
  case (Skip item rest st st' thrown)
  then show ?case by simp
next
  case (Throw d rest st e c')
  show ?case
  proof
    assume "\<forall>n ctx. \<exists>out. shouldStrip n ctx = Finish out"
    then obtain out where
      "shouldStrip (length (predicate_calls st)) (context_for context src d) = Finish out"
      by blast
    with Throw.hyps(2) show "cache (st\<lparr>cache := c', predicate_calls := predicate_calls st @
        [(context_for context src d, Throws e)]\<rparr>) = cache st"
      by simp
  qed
next
  case (Decide d rest st out c' st' thrown)
  show ?case
  proof
    assume never: "\<forall>n ctx. \<exists>out. shouldStrip n ctx = Finish out"
    then obtain out' where
      "shouldStrip (length (predicate_calls st)) (context_for context src d) = Finish out'"
      by blast
    with Decide.hyps(2) have "c' = cache st"
      by simp
    with Decide.IH never show "cache st' = cache st"
      by simp
  qed
qed

lemma transform_never_reading:
  assumes "\<forall>n ctx. \<exists>out. shouldStrip n ctx = Finish out"
  shows "resolutions (fst (transform h source_text file_id shouldStrip context)) = []"
proof (cases "parse h source_text (endsWith ''.tsx'' file_id)")
  case (Inl e)
  then show ?thesis
    by (simp add: transform_unparsed no_effects_def)
next
  case (Inr items)
  let ?src = "relativeToRoot h file_id (root (context_config context))"
  obtain st thrown where run: "scatter h file_id shouldStrip context ?src items new_loop = (st, thrown)"
    by (cases "scatter h file_id shouldStrip context ?src items new_loop")
  from scatter_never_reading [OF run] assms have "cache st = cache new_loop"
    by simp
  then show ?thesis
    unfolding transform_effects [OF Inr run] by (simp add: new_loop_def new_resolver_def)
qed

text \<open>
  C6. The getter is lazy and memoized by the text of the specifier. Whatever reads of
  the getter the imports of a file make and in whatever order, on the cache that the
  transform creates, the resolution service is called once for each distinct specifier
  that is read and for no other, and two reads for the same specifier return the same
  promise. In a transform, whatever the predicate does, no specifier is resolved twice,
  only specifiers of imports that reached the predicate are resolved, and a predicate
  that never reads the getter causes no resolution at all.
\<close>

theorem resolvedTarget_lazy_and_memoized:
  assumes "read_all h context file_id reads new_resolver = (ps, st)"
  shows "distinct (map fst (resolve_calls st)) \<and>
         set (map fst (resolve_calls st)) = set reads \<and>
         length ps = length reads \<and>
         (\<forall>i<length reads. \<forall>j<length reads. reads ! i = reads ! j \<longrightarrow> ps ! i = ps ! j) \<and>
         distinct (map fst (resolutions (fst (transform h source_text file_id shouldStrip context)))) \<and>
         set (map fst (resolutions (fst (transform h source_text file_id shouldStrip context))))
           \<subseteq> set (map (\<lambda>c. target (fst c))
                  (invoked (fst (transform h source_text file_id shouldStrip context)))) \<and>
         ((\<forall>n ctx. \<exists>out. shouldStrip n ctx = Finish out) \<longrightarrow>
            resolutions (fst (transform h source_text file_id shouldStrip context)) = [])"
proof -
  note reads = read_all_memoized [OF assms]
  note once = transform_resolutions [of h source_text file_id shouldStrip "context"]
  have lazy: "(\<forall>n ctx. \<exists>out. shouldStrip n ctx = Finish out) \<longrightarrow>
      resolutions (fst (transform h source_text file_id shouldStrip context)) = []"
    by (rule impI) (rule transform_never_reading)
  show ?thesis
    by (rule conjI [OF reads [THEN conjunct1]],
        rule conjI [OF reads [THEN conjunct2, THEN conjunct1]],
        rule conjI [OF reads [THEN conjunct2, THEN conjunct2, THEN conjunct1]],
        rule conjI [OF reads [THEN conjunct2, THEN conjunct2, THEN conjunct2]],
        rule conjI [OF once [THEN conjunct1]],
        rule conjI [OF once [THEN conjunct2]],
        rule lazy)
qed

theorem resolvedTarget_lazy_and_memoized_witness:
  "resolve_calls (snd (read_all (host_parsing ''src'' twice_file) fixture_context ''/app/index.ts''
      [''./a'', ''./b'', ''./a''] new_resolver)) = [(''./a'', ''/app/index.ts''), (''./b'', ''/app/index.ts'')] \<and>
   fst (read_all (host_parsing ''src'' twice_file) fixture_context ''/app/index.ts''
      [''./a'', ''./b'', ''./a''] new_resolver) ! 0 =
   fst (read_all (host_parsing ''src'' twice_file) fixture_context ''/app/index.ts''
      [''./a'', ''./b'', ''./a''] new_resolver) ! 2 \<and>
   resolutions (fst (transform (host_parsing ''src'' twice_file) ''src'' ''/app/index.ts''
      strip_by_path fixture_context)) = [(''./devOnly'', ''/app/index.ts''), (''./util'', ''/app/index.ts'')] \<and>
   resolutions (fst (transform (host_parsing ''src'' twice_file) ''src'' ''/app/index.ts''
      strip_dev_only fixture_context)) = []"
proof -
  let ?h = "host_parsing ''src'' twice_file"
  obtain ps st where run: "read_all ?h fixture_context ''/app/index.ts''
      [''./a'', ''./b'', ''./a''] new_resolver = (ps, st)"
    by (cases "read_all ?h fixture_context ''/app/index.ts''
      [''./a'', ''./b'', ''./a''] new_resolver")
  have never: "\<forall>n ctx. \<exists>out. strip_dev_only n ctx = Finish out"
    by (simp add: strip_dev_only_def)
  note inst = resolvedTarget_lazy_and_memoized [OF run, of "''src''" strip_dev_only]
  note lazy = inst [THEN conjunct2, THEN conjunct2, THEN conjunct2, THEN conjunct2,
      THEN conjunct2, THEN conjunct2]
  note same = inst [THEN conjunct2, THEN conjunct2, THEN conjunct2, THEN conjunct1]
  from lazy never
  have a: "resolutions (fst (transform ?h ''src'' ''/app/index.ts'' strip_dev_only fixture_context)) = []"
    by (rule mp)
  have b: "resolve_calls (snd (read_all ?h fixture_context ''/app/index.ts''
      [''./a'', ''./b'', ''./a''] new_resolver)) = [(''./a'', ''/app/index.ts''), (''./b'', ''/app/index.ts'')]"
    by code_simp
  have c: "fst (read_all ?h fixture_context ''/app/index.ts'' [''./a'', ''./b'', ''./a''] new_resolver) ! 0 =
   fst (read_all ?h fixture_context ''/app/index.ts'' [''./a'', ''./b'', ''./a''] new_resolver) ! 2"
    using same [rule_format, of 0 2] unfolding run by simp
  have d: "resolutions (fst (transform ?h ''src'' ''/app/index.ts''
      strip_by_path fixture_context)) = [(''./devOnly'', ''/app/index.ts''), (''./util'', ''/app/index.ts'')]"
    by code_simp
  show ?thesis
    by (rule conjI [OF b], rule conjI [OF c], rule conjI [OF d], rule a)
qed

lemma rejection_decision:
  "rejection e = Some err \<Longrightarrow> \<exists>d t. e = Decision d (Rejects t err)"
  by (cases e rule: rejection.cases) simp_all

lemma transform_failure:
  assumes "transform h source_text file_id shouldStrip context = (fx, res)"
    and "(ctx, out) \<in> set (invoked fx)" and "failure out = Some e0"
  shows "\<exists>e. res = Rejected e \<and> (\<exists>p\<in>set (invoked fx). failure (snd p) = Some e) \<and>
             print_calls fx = []"
proof (cases "parse h source_text (endsWith ''.tsx'' file_id)")
  case (Inl e)
  with assms(1) have "invoked fx = []"
    by (auto simp: transform_unparsed no_effects_def)
  with assms(2) show ?thesis
    by simp
next
  case (Inr items)
  let ?src = "relativeToRoot h file_id (root (context_config context))"
  obtain st thrown where run: "scatter h file_id shouldStrip context ?src items new_loop = (st, thrown)"
    by (cases "scatter h file_id shouldStrip context ?src items new_loop")
  note tr = transform_parsed [OF Inr run]
  have inv: "invoked fx = predicate_calls st"
    using transform_effects(1) [OF Inr run] assms(1) by simp
  from scatter_shape [OF run] have shape:
    "\<forall>e. thrown = Some e \<longrightarrow> predicate_calls st \<noteq> [] \<and> snd (last (predicate_calls st)) = Throws e"
    "thrown = None \<longrightarrow>
       (\<exists>es. body st = es \<and> map entry_item es = items \<and> list_all loop_entry es \<and>
             map snd (decisions es) = map snd (predicate_calls st))"
    by (auto simp: new_loop_def)
  show ?thesis
  proof (cases thrown)
    case (Some e)
    with tr assms(1) have res: "res = Rejected e" "print_calls fx = []"
      by auto
    from shape(1) Some have "predicate_calls st \<noteq> []" "snd (last (predicate_calls st)) = Throws e"
      by simp_all
    then have "last (predicate_calls st) \<in> set (invoked fx)"
      "failure (snd (last (predicate_calls st))) = Some e"
      by (simp_all add: inv)
    with res show ?thesis
      by blast
  next
    case None
    with shape(2) have es: "list_all loop_entry (body st)"
      "map snd (decisions (body st)) = map snd (predicate_calls st)"
      by auto
    from assms(2) have "out \<in> set (map snd (decisions (body st)))"
      unfolding es(2) inv by force
    then obtain d where d: "Decision d out \<in> set (body st)"
      by (auto simp: decisions_member)
    with es(1) have "\<not> throws out"
      by (auto simp: list_all_iff)
    with assms(3) have "rejection (Decision d out) = Some e0"
      by (cases out) simp_all
    from promise_all_rejected [OF d this] obtain err e' where err:
      "promise_all (body st) = Rejected err" "e' \<in> set (body st)" "rejection e' = Some err"
      by blast
    from rejection_decision [OF err(3)] obtain d' t' where "e' = Decision d' (Rejects t' err)"
      by blast
    with err(2) have "(d', Rejects t' err) \<in> set (decisions (body st))"
      by (simp add: decisions_member)
    then have "Rejects t' err \<in> set (map snd (predicate_calls st))"
      unfolding es(2) [symmetric] by force
    then obtain p where "p \<in> set (invoked fx)" "snd p = Rejects t' err"
      unfolding inv by auto
    then have "\<exists>p\<in>set (invoked fx). failure (snd p) = Some err"
      by force
    moreover from tr assms(1) None err(1) have "res = Rejected err" "print_calls fx = []"
      by auto
    ultimately show ?thesis
      by blast
  qed
qed

lemma plugin_transform_ran:
  assumes "invoked (done_effects (plugin_transform h shouldStrip source_text file_id st)) \<noteq> []"
  obtains c e where "cachedConfig st = Some c" "cachedEnv st = Some e" "script_id file_id"
proof -
  from assms have "cachedConfig st \<noteq> None \<and> cachedEnv st \<noteq> None \<and> script_id file_id"
    by (cases "cachedConfig st"; cases "cachedEnv st"; cases "script_id file_id")
       (simp_all add: plugin_transform_def no_effects_def)
  with that show thesis
    by auto
qed

lemma plugin_transform_rejected:
  assumes "cachedConfig st = Some c" and "cachedEnv st = Some e" and "script_id file_id"
    and "transform h source_text file_id shouldStrip
           \<lparr>resolve = this_resolve h, context_config = c, context_env = e\<rparr> = (fx, Rejected err)"
  shows "plugin_transform h shouldStrip source_text file_id st =
           \<lparr>done_effects = fx, logged = [], answer = Rejected err, state_after = st\<rparr>"
  using assms by (simp add: plugin_transform_def)

text \<open>
  C2. When an invocation of the predicate for a file fails, by throwing or by a promise
  that is rejected, the hook fails with the error of a failed invocation of that file (of
  the one that throws, or else of the first promise to be rejected): it returns no code
  and no map, the rewritten body is never built nor printed, nothing is logged, and the
  state of the plugin, the Origin Registry in it, is what it was.
\<close>

theorem predicate_failure_aborts_the_file:
  assumes "(ctx, out) \<in> set (invoked (done_effects (plugin_transform h shouldStrip source_text file_id st)))"
    and "failure out = Some e0"
  shows "\<exists>e. answer (plugin_transform h shouldStrip source_text file_id st) = Rejected e \<and>
             (\<exists>p\<in>set (invoked (done_effects (plugin_transform h shouldStrip source_text file_id st))).
                 failure (snd p) = Some e) \<and>
             print_calls (done_effects (plugin_transform h shouldStrip source_text file_id st)) = [] \<and>
             logged (plugin_transform h shouldStrip source_text file_id st) = [] \<and>
             state_after (plugin_transform h shouldStrip source_text file_id st) = st"
proof -
  from assms(1) have "invoked (done_effects (plugin_transform h shouldStrip source_text file_id st)) \<noteq> []"
    by auto
  then obtain c e where ready: "cachedConfig st = Some c" "cachedEnv st = Some e" "script_id file_id"
    by (rule plugin_transform_ran)
  let ?tc = "\<lparr>resolve = this_resolve h, context_config = c, context_env = e\<rparr>"
  obtain fx res where tr: "transform h source_text file_id shouldStrip ?tc = (fx, res)"
    by (cases "transform h source_text file_id shouldStrip ?tc")
  have fx: "done_effects (plugin_transform h shouldStrip source_text file_id st) = fx"
    using ready tr by (cases res) (auto simp: plugin_transform_def split: option.splits)
  from transform_failure [OF tr assms(1) [unfolded fx] assms(2)] obtain err where err:
    "res = Rejected err" "\<exists>p\<in>set (invoked fx). failure (snd p) = Some err" "print_calls fx = []"
    by blast
  note run = plugin_transform_rejected [OF ready tr [unfolded err(1)]]
  show ?thesis
    unfolding run using err(2,3) by simp
qed

theorem predicate_failure_aborts_the_file_witness:
  "answer (plugin_transform (host_parsing ''src'' guarded_file) rejecting_first ''src''
      ''/app/index.ts'' ready_plugin) = Rejected (Error ''boom'') \<and>
   state_after (plugin_transform (host_parsing ''src'' guarded_file) rejecting_first ''src''
      ''/app/index.ts'' ready_plugin) = ready_plugin \<and>
   print_calls (done_effects (plugin_transform (host_parsing ''src'' guarded_file) rejecting_first ''src''
      ''/app/index.ts'' ready_plugin)) = []"
proof -
  let ?run = "plugin_transform (host_parsing ''src'' guarded_file) rejecting_first ''src''
      ''/app/index.ts'' ready_plugin"
  have "map snd (invoked (done_effects ?run)) = [Rejects 5 (Error ''boom''), Fulfils 0 True]"
    by code_simp
  then have "Rejects 5 (Error ''boom'') \<in> snd ` set (invoked (done_effects ?run))"
    by (metis list.set_intros(1) set_map)
  then obtain ctx where failed: "(ctx, Rejects 5 (Error ''boom'')) \<in> set (invoked (done_effects ?run))"
    by auto
  have "failure (Rejects 5 (Error ''boom'')) = Some (Error ''boom'')"
    by simp
  from predicate_failure_aborts_the_file [OF failed this]
  have "state_after ?run = ready_plugin" "print_calls (done_effects ?run) = []"
    by blast+
  moreover have "answer ?run = Rejected (Error ''boom'')"
    by code_simp
  ultimately show ?thesis
    by blast
qed

text \<open>
  C3 fails on the code. The only import of this file binds no name (it is imported for
  its effects); the predicate decides to strip it, and the transform, which looks at the
  set of stripped names and not at the decisions, reports the file unchanged.
\<close>

theorem stripped_side_effect_import_reported_unchanged:
  "map (\<lambda>c. decides_strip (snd c))
     (invoked (fst (transform (host_parsing ''src'' side_effect_file) ''src'' ''/app/index.ts''
        strip_dev_only fixture_context))) = [True] \<and>
   snd (transform (host_parsing ''src'' side_effect_file) ''src'' ''/app/index.ts''
        strip_dev_only fixture_context) = Resolved None \<and>
   answer (plugin_transform (host_parsing ''src'' side_effect_file) strip_dev_only ''src''
        ''/app/index.ts'' ready_plugin) = Resolved None"
  by code_simp

lemma zip_fst_snd: "zip (map fst xs) (map snd xs) = xs"
  by (induction xs) auto

lemma stripped_names_decisions:
  "(\<forall>e\<in>set es. stripped_names e = []) \<longleftrightarrow>
   (\<forall>p\<in>set (decisions es). decides_strip (snd p) \<longrightarrow> bound_names (fst p) = [])"
proof (induction es)
  case Nil
  then show ?case by simp
next
  case (Cons e es)
  then show ?case by (cases e) auto
qed

text \<open>
  A transform that returns reports the file unchanged exactly when no import that was
  decided strip binds a name; in particular when no import was decided strip.
\<close>

lemma transform_unchanged_iff_no_name_stripped:
  assumes "parse h source_text (endsWith ''.tsx'' file_id) = Inr items"
    and "transform h source_text file_id shouldStrip context = (fx, Resolved x)"
  shows "x = None \<longleftrightarrow>
         (\<forall>p\<in>set (zip (runtime_imports items) (map snd (invoked fx))).
             decides_strip (snd p) \<longrightarrow> bound_names (fst p) = [])"
proof -
  let ?src = "relativeToRoot h file_id (root (context_config context))"
  obtain st thrown where run: "scatter h file_id shouldStrip context ?src items new_loop = (st, thrown)"
    by (cases "scatter h file_id shouldStrip context ?src items new_loop")
  note tr = transform_parsed [OF assms(1) run]
  have inv: "invoked fx = predicate_calls st"
    using transform_effects(1) [OF assms(1) run] assms(2) by simp
  from tr assms(2) have thrown: "thrown = None"
    by (cases thrown) auto
  from tr assms(2) thrown obtain g where g: "promise_all (body st) = Resolved g"
    by (cases "promise_all (body st)") auto
  from tr assms(2) thrown g have x: "x = None \<longleftrightarrow> stripped_symbols g = []"
    by (auto split: if_splits)
  from scatter_shape [OF run] thrown have es:
    "map entry_item (body st) = items" "list_all loop_entry (body st)"
    "map snd (decisions (body st)) = map snd (predicate_calls st)"
    by (auto simp: new_loop_def)
  have "zip (runtime_imports items) (map snd (invoked fx)) = decisions (body st)"
    using decisions_runtime_imports [OF es(2)] es(1,3) inv zip_fst_snd [of "decisions (body st)"]
    by simp
  moreover have "stripped_symbols g = [] \<longleftrightarrow> (\<forall>e\<in>set (body st). stripped_names e = [])"
    using promise_all_resolved [OF g] by (metis (no_types, lifting) SUP_bot_conv(2) set_empty)
  ultimately show ?thesis
    using x stripped_names_decisions [of "body st"] by simp
qed

lemma run_predicate_retime:
  "run_predicate (retime g b) getter st =
     (restamp g (fst (run_predicate b getter st)), snd (run_predicate b getter st))"
proof (induction b arbitrary: st)
  case (Finish out)
  show ?case by simp
next
  case (ReadResolvedTarget k)
  obtain p st1 where first: "getter st = (p, st1)"
    by (cases "getter st")
  from ReadResolvedTarget.IH [of "k (settles_to p)" st1, OF rangeI] show ?case
    by (simp add: first)
qed

lemma throws_restamp [simp]: "throws (restamp g out) = throws out"
  by (cases out) simp_all

lemma untimed_restamp [simp]: "untimed (Decision d (restamp g out)) = untimed (Decision d out)"
  by (cases out) simp_all

lemma scatter_retimed:
  assumes "scatter h file_id shouldStrip context src items st = (st', thrown)"
  shows "\<forall>st2. same_but_times st st2 \<longrightarrow>
               (\<exists>st2'. scatter h file_id (retimed G shouldStrip) context src items st2 = (st2', thrown) \<and>
                       same_but_times st' st2')"
  using assms
proof (induction rule: scatter_cases)
  case (Nil st)
  show ?case by simp
next
  case (Skip item rest st st' thrown)
  show ?case
  proof (intro allI impI)
    fix st2 assume same: "same_but_times st st2"
    then have "same_but_times (st\<lparr>body := body st @ [Item item]\<rparr>) (st2\<lparr>body := body st2 @ [Item item]\<rparr>)"
      by (simp add: same_but_times_def)
    with Skip.IH obtain st2' where
      "scatter h file_id (retimed G shouldStrip) context src rest
         (st2\<lparr>body := body st2 @ [Item item]\<rparr>) = (st2', thrown)"
      "same_but_times st' st2'"
      by blast
    then show "\<exists>st2'. scatter h file_id (retimed G shouldStrip) context src (item # rest) st2 = (st2', thrown) \<and>
                       same_but_times st' st2'"
      using Skip.hyps(1) by (simp add: scatter_skip del: scatter.simps)
  qed
next
  case (Throw d rest st e c')
  show ?case
  proof (intro allI impI)
    fix st2 assume same: "same_but_times st st2"
    let ?g = "G (length (predicate_calls st2))"
    have "run_predicate (retimed G shouldStrip (length (predicate_calls st2)) (context_for context src d))
           (resolvedTarget h context file_id (source_value d)) (cache st2) = (Throws e, c')"
      using same Throw.hyps(2) by (simp add: retimed_def run_predicate_retime same_but_times_def)
    from scatter_throw [where shouldStrip = "retimed G shouldStrip" and rest = rest, OF Throw.hyps(1) this]
    show "\<exists>st2'. scatter h file_id (retimed G shouldStrip) context src (ImportDeclaration d # rest) st2 =
             (st2', Some e) \<and>
             same_but_times (st\<lparr>cache := c', predicate_calls := predicate_calls st @
                [(context_for context src d, Throws e)]\<rparr>) st2'"
      using same by (simp add: same_but_times_def del: scatter.simps)
  qed
next
  case (Decide d rest st out c' st' thrown)
  show ?case
  proof (intro allI impI)
    fix st2 assume same: "same_but_times st st2"
    let ?g = "G (length (predicate_calls st2))"
    let ?ctx = "context_for context src d"
    have run2: "run_predicate (retimed G shouldStrip (length (predicate_calls st2)) ?ctx)
           (resolvedTarget h context file_id (source_value d)) (cache st2) = (restamp ?g out, c')"
      using same Decide.hyps(2) by (simp add: retimed_def run_predicate_retime same_but_times_def)
    have not_thrown: "\<not> throws (restamp ?g out)"
      using Decide.hyps(3) by simp
    note step = scatter_decide [where shouldStrip = "retimed G shouldStrip" and rest = rest,
        OF Decide.hyps(1) run2 not_thrown]
    have "same_but_times
        (st\<lparr>cache := c', predicate_calls := predicate_calls st @ [(?ctx, out)],
            body := body st @ [Decision d out]\<rparr>)
        (st2\<lparr>cache := c', predicate_calls := predicate_calls st2 @ [(?ctx, restamp ?g out)],
            body := body st2 @ [Decision d (restamp ?g out)]\<rparr>)"
      using same by (simp add: same_but_times_def del: untimed.simps)
    with Decide.IH obtain st2' where
      "scatter h file_id (retimed G shouldStrip) context src rest
         (st2\<lparr>cache := c', predicate_calls := predicate_calls st2 @ [(?ctx, restamp ?g out)],
            body := body st2 @ [Decision d (restamp ?g out)]\<rparr>) = (st2', thrown)"
      "same_but_times st' st2'"
      by blast
    then show "\<exists>st2'. scatter h file_id (retimed G shouldStrip) context src (ImportDeclaration d # rest) st2 =
             (st2', thrown) \<and> same_but_times st' st2'"
      unfolding step by blast
  qed
qed

lemma untimed_rejected: "rejected (untimed e) = rejected e"
  by (cases e rule: rejection.cases) (simp_all add: rejected_def)

lemma untimed_never_settles: "never_settles (untimed e) = never_settles e"
  by (cases e rule: rejection.cases) simp_all

lemma untimed_stripped_names: "stripped_names (untimed e) = stripped_names e"
  by (cases e rule: rejection.cases) simp_all

lemma untimed_final_value: "final_value (untimed e) = final_value e"
  by (cases e rule: rejection.cases) simp_all

lemma summary_untimed: "summary h src thrown (map untimed es) = summary h src thrown es"
proof -
  have "list_ex rejected (map untimed es) = list_ex rejected es"
    by (induction es) (simp_all add: untimed_rejected del: untimed.simps)
  moreover have "list_ex never_settles (map untimed es) = list_ex never_settles es"
    by (induction es) (simp_all add: untimed_never_settles del: untimed.simps)
  moreover have "list_all (\<lambda>e. stripped_names e = []) (map untimed es) =
      list_all (\<lambda>e. stripped_names e = []) es"
    by (induction es) (simp_all add: untimed_stripped_names del: untimed.simps)
  moreover have "map final_value (map untimed es) = map final_value es"
    by (induction es) (simp_all add: untimed_final_value del: untimed.simps)
  ultimately show ?thesis
    unfolding summary_def by (simp only:)
qed

lemma transform_summary:
  assumes "parse h source_text (endsWith ''.tsx'' file_id) = Inr items"
    and "scatter h file_id shouldStrip context
           (relativeToRoot h file_id (root (context_config context))) items new_loop = (st, thrown)"
  shows "outward (snd (transform h source_text file_id shouldStrip context)) =
         summary h (relativeToRoot h file_id (root (context_config context))) thrown (body st)"
proof (cases thrown)
  case (Some e)
  then show ?thesis
    unfolding transform_parsed [OF assms] by (simp add: summary_def)
next
  case None
  show ?thesis
  proof (cases "list_ex rejected (body st)")
    case True
    then obtain e err where "e \<in> set (body st)" "rejection e = Some err"
      by (auto simp: list_ex_iff rejected_def)
    from promise_all_rejected [OF this] obtain err' where "promise_all (body st) = Rejected err'"
      by blast
    with None True show ?thesis
      unfolding transform_parsed [OF assms] by (simp add: summary_def)
  next
    case False
    then have none: "\<forall>e\<in>set (body st). rejection e = None"
      by (simp add: list_ex_iff rejected_def)
    note all = promise_all_unrejected [OF none]
    show ?thesis
    proof (cases "list_ex never_settles (body st)")
      case True
      with None False all show ?thesis
        unfolding transform_parsed [OF assms] by (simp add: summary_def)
    next
      case settle: False
      let ?g = "fold settle (completion_order (body st)) (new_gather (body st))"
      from all settle have g: "promise_all (body st) = Resolved ?g"
        by simp
      have "set (stripped_symbols ?g) = {} \<longleftrightarrow> (\<forall>e\<in>set (body st). set (stripped_names e) = {})"
        by (simp only: gathered_symbols SUP_bot_conv)
      then have "stripped_symbols ?g = [] \<longleftrightarrow> list_all (\<lambda>e. stripped_names e = []) (body st)"
        by (simp only: set_empty list_all_iff)
      with None False settle g show ?thesis
        unfolding transform_parsed [OF assms]
        by (simp add: summary_def gathered_results)
    qed
  qed
qed

lemma same_but_times_refl: "same_but_times st st"
  by (simp add: same_but_times_def)

lemma transform_retimed:
  "outward (snd (transform h source_text file_id (retimed G shouldStrip) context)) =
   outward (snd (transform h source_text file_id shouldStrip context))"
proof (cases "parse h source_text (endsWith ''.tsx'' file_id)")
  case (Inl e)
  then show ?thesis
    by (simp add: transform_unparsed)
next
  case (Inr items)
  let ?src = "relativeToRoot h file_id (root (context_config context))"
  obtain st thrown where run: "scatter h file_id shouldStrip context ?src items new_loop = (st, thrown)"
    by (cases "scatter h file_id shouldStrip context ?src items new_loop")
  from scatter_retimed [OF run, of G] same_but_times_refl [of new_loop] obtain st2 where run2:
    "scatter h file_id (retimed G shouldStrip) context ?src items new_loop = (st2, thrown)"
    and same: "same_but_times st st2"
    by blast
  from same have eq: "map untimed (body st2) = map untimed (body st)"
    by (simp add: same_but_times_def)
  have "summary h ?src thrown (body st2) = summary h ?src thrown (map untimed (body st2))"
    by (simp only: summary_untimed)
  also have "\<dots> = summary h ?src thrown (map untimed (body st))"
    by (simp only: eq)
  also have "\<dots> = summary h ?src thrown (body st)"
    by (simp only: summary_untimed)
  finally show ?thesis
    by (simp only: transform_summary [OF Inr run] transform_summary [OF Inr run2])
qed

text \<open>
  C1. The completion order of the invocations of the predicate does not show in what a
  transform gives the build: with the completion times of the invocations changed in
  any way, the transform returns the same code and map, or is unchanged, fails or stalls
  alike. When a file is rewritten, the body that is printed is \<open>retain\<close> of the parsed
  body: the statements of the source, the imports decided strip left out, each statement
  at its place in the order of the source.
\<close>

theorem retained_statements_in_source_order:
  assumes "parse h source_text (endsWith ''.tsx'' file_id) = Inr items"
    and "transform h source_text file_id shouldStrip context = (fx, res)"
  shows "outward (snd (transform h source_text file_id (retimed G shouldStrip) context)) = outward res \<and>
         (\<forall>r. res = Resolved (Some r) \<longrightarrow>
            print_calls fx = [(retain items (map snd (invoked fx)), relativeSource r)] \<and>
            (code r, source_map r) = print h (retain items (map snd (invoked fx))) (relativeSource r) \<and>
            subseq (retain items (map snd (invoked fx))) items)"
proof (intro conjI allI impI)
  have "snd (transform h source_text file_id shouldStrip context) = res"
    by (simp only: assms(2) snd_conv)
  then show "outward (snd (transform h source_text file_id (retimed G shouldStrip) context)) = outward res"
    by (simp only: transform_retimed)
next
  fix r assume r: "res = Resolved (Some r)"
  from transform_rewrote [OF assms(1) assms(2) [unfolded r]] obtain es where es:
    "map entry_item es = items" "list_all loop_entry es"
    "map snd (decisions es) = map snd (invoked fx)"
    "\<forall>e\<in>set es. rejection e = None" "\<not> list_ex never_settles es"
    "print_calls fx = [(List.map_filter (\<lambda>r. r) (map final_value es), relativeSource r)]"
    "(code r, source_map r) = print h (List.map_filter (\<lambda>r. r) (map final_value es)) (relativeSource r)"
    by blast
  have b: "List.map_filter (\<lambda>r. r) (map final_value es) = retain items (map snd (invoked fx))"
    using final_values_retain [OF es(2,4,5)] es(1,3) by simp
  show "print_calls fx = [(retain items (map snd (invoked fx)), relativeSource r)]"
    using es(6) b by simp
  show "(code r, source_map r) = print h (retain items (map snd (invoked fx))) (relativeSource r)"
    using es(7) b by simp
  show "subseq (retain items (map snd (invoked fx))) items"
    by (rule subseq_retain)
qed

theorem retained_statements_in_source_order_witness:
  "outward (snd (transform (host_parsing ''src'' twice_file) ''src'' ''/app/index.ts''
      (retimed (\<lambda>n t. 5 - n) strip_by_path) fixture_context)) =
     Resolved (Some (''import ./util;console.log(util());'', Some ''index.ts'')) \<and>
   strippedImportSymbols (case snd (transform (host_parsing ''src'' twice_file) ''src'' ''/app/index.ts''
      (retimed (\<lambda>n t. 5 - n) strip_by_path) fixture_context) of Resolved (Some r) \<Rightarrow> r) =
     [''trace'', ''debug''] \<and>
   strippedImportSymbols (case snd (transform (host_parsing ''src'' twice_file) ''src'' ''/app/index.ts''
      strip_by_path fixture_context) of Resolved (Some r) \<Rightarrow> r) =
     [''debug'', ''trace''] \<and>
   print_calls (fst (transform (host_parsing ''src'' twice_file) ''src'' ''/app/index.ts''
      strip_by_path fixture_context)) =
     [([ImportDeclaration (import_of ''./util'' [ImportDefaultSpecifier ''util''] None),
        Statement ''console.log(util())''], ''index.ts'')]"
proof -
  let ?h = "host_parsing ''src'' twice_file"
  have parsed: "parse ?h ''src'' (endsWith ''.tsx'' ''/app/index.ts'') = Inr twice_file"
    by (simp add: host_parsing_def)
  obtain fx res where run: "transform ?h ''src'' ''/app/index.ts'' strip_by_path fixture_context = (fx, res)"
    by (cases "transform ?h ''src'' ''/app/index.ts'' strip_by_path fixture_context")
  have res: "outward (snd (transform ?h ''src'' ''/app/index.ts'' strip_by_path fixture_context)) =
     Resolved (Some (''import ./util;console.log(util());'', Some ''index.ts''))"
    by code_simp
  from retained_statements_in_source_order [OF parsed run, of "\<lambda>n t. 5 - n"] res
  have a: "outward (snd (transform ?h ''src'' ''/app/index.ts''
      (retimed (\<lambda>n t. 5 - n) strip_by_path) fixture_context)) =
     Resolved (Some (''import ./util;console.log(util());'', Some ''index.ts''))"
    unfolding run by simp
  have b: "strippedImportSymbols (case snd (transform ?h ''src'' ''/app/index.ts''
      (retimed (\<lambda>n t. 5 - n) strip_by_path) fixture_context) of Resolved (Some r) \<Rightarrow> r) =
     [''trace'', ''debug'']"
    by code_simp
  have c: "strippedImportSymbols (case snd (transform ?h ''src'' ''/app/index.ts''
      strip_by_path fixture_context) of Resolved (Some r) \<Rightarrow> r) = [''debug'', ''trace'']"
    by code_simp
  have d: "print_calls (fst (transform ?h ''src'' ''/app/index.ts'' strip_by_path fixture_context)) =
     [([ImportDeclaration (import_of ''./util'' [ImportDefaultSpecifier ''util''] None),
        Statement ''console.log(util())''], ''index.ts'')]"
    by code_simp
  show ?thesis
    by (rule conjI [OF a], rule conjI [OF b], rule conjI [OF c], rule d)
qed

end
